theory Spec2Isabelle
  imports Complex_Main "HOL-Library.Multiset"
begin

section \<open>Data model: a pandas DataFrame as a list of typed columns\<close>

text \<open>
  The program (\<^verbatim>\<open>src/app.py\<close>) works on a pandas \<^verbatim>\<open>DataFrame\<close>. The embedding keeps
  what the program can observe of one: an ordered list of named columns, each with a
  storage type (its \<^verbatim>\<open>dtype\<close>) and one value per row.

  \<^item> \<^verbatim>\<open>object\<close> and \<^verbatim>\<open>category\<close> columns hold strings or the missing marker
    (what \<^verbatim>\<open>read_csv\<close> produces for text). The one other object the program can put
    there is a timestamp with its own UTC offset, which \<^verbatim>\<open>to_datetime\<close> returns for
    texts with differing offsets; it is written as its text;
  \<^item> \<^verbatim>\<open>bool\<close> columns hold booleans and cannot hold a missing marker;
  \<^item> \<^verbatim>\<open>int64\<close> columns hold integers and cannot hold a missing marker;
  \<^item> \<^verbatim>\<open>float64\<close> columns hold a finite number, an infinity, or NaN, which is the
    missing marker. A finite number is a rational; the arithmetic of the program rounds
    its results to the nearest \<^verbatim>\<open>float64\<close> and overflows to an infinity, as IEEE 754
    does. The sign of zero is not modelled;
  \<^item> \<^verbatim>\<open>datetime64[ns]\<close> columns hold nanoseconds since the epoch, or NaT (missing);
  \<^item> \<^verbatim>\<open>datetime64[ns, tz]\<close> columns are the same with a time zone. They are a storage
    type of their own: \<^verbatim>\<open>select_dtypes(include=['datetime'])\<close> does not select them.

  The library behaviour written out below is that of pandas 1.x and 2.x, which the program
  is written for: a text column has dtype \<^verbatim>\<open>object\<close>, and \<^verbatim>\<open>astype(str)\<close> writes a
  missing marker as the text \<^verbatim>\<open>nan\<close>. Column names are byte strings; lower-casing acts
  on the letters A to Z.
\<close>

datatype fl = NInf | Fin rat | PInf

datatype coldata =
    ObjectCol "string option list"
  | BoolCol "bool list"
  | Int64Col "int list"
  | Float64Col "fl option list"
  | DatetimeCol "int option list"
  | CategoryCol "string option list"
  | DatetimeTZCol string "int option list"

datatype dtype = Object | Bool | Int64 | Float64 | Datetime | Category | DatetimeTZ string

record column =
  name :: string
  data :: coldata

type_synonym dataframe = "column list"

fun dtype_of :: "coldata \<Rightarrow> dtype" where
  "dtype_of (ObjectCol xs) = Object"
| "dtype_of (BoolCol xs) = Bool"
| "dtype_of (Int64Col xs) = Int64"
| "dtype_of (Float64Col xs) = Float64"
| "dtype_of (DatetimeCol xs) = Datetime"
| "dtype_of (CategoryCol xs) = Category"
| "dtype_of (DatetimeTZCol z xs) = DatetimeTZ z"

definition dtype :: "column \<Rightarrow> dtype" where
  "dtype c = dtype_of (data c)"

text \<open>One cell of a row, as row comparison and the sample see it. \<open>NA\<close> is the missing marker.\<close>

datatype cell = Str string | BoolV bool | IntV int | FloatV fl | Ts int | NA

fun cells_of :: "coldata \<Rightarrow> cell list" where
  "cells_of (ObjectCol xs) = map (\<lambda>x. case x of None \<Rightarrow> NA | Some s \<Rightarrow> Str s) xs"
| "cells_of (BoolCol xs) = map BoolV xs"
| "cells_of (Int64Col xs) = map IntV xs"
| "cells_of (Float64Col xs) = map (\<lambda>x. case x of None \<Rightarrow> NA | Some v \<Rightarrow> FloatV v) xs"
| "cells_of (DatetimeCol xs) = map (\<lambda>x. case x of None \<Rightarrow> NA | Some t \<Rightarrow> Ts t) xs"
| "cells_of (CategoryCol xs) = map (\<lambda>x. case x of None \<Rightarrow> NA | Some s \<Rightarrow> Str s) xs"
| "cells_of (DatetimeTZCol z xs) = map (\<lambda>x. case x of None \<Rightarrow> NA | Some t \<Rightarrow> Ts t) xs"

definition cells :: "column \<Rightarrow> cell list" where
  "cells c = cells_of (data c)"

definition col_len :: "column \<Rightarrow> nat" where
  "col_len c = length (cells c)"

text \<open>\<^verbatim>\<open>len(df)\<close>: the number of rows. A frame without columns has none.\<close>

definition nrows :: "dataframe \<Rightarrow> nat" where
  "nrows df = (case df of [] \<Rightarrow> 0 | c # cs \<Rightarrow> col_len c)"

text \<open>Every column of a frame has one value per row.\<close>

definition wf_df :: "dataframe \<Rightarrow> bool" where
  "wf_df df = list_all (\<lambda>c. col_len c = nrows df) df"

definition row :: "dataframe \<Rightarrow> nat \<Rightarrow> cell list" where
  "row df i = map (\<lambda>c. cells c ! i) df"

definition rows_of :: "dataframe \<Rightarrow> cell list list" where
  "rows_of df = map (row df) [0..<nrows df]"

text \<open>Positional row selection (\<^verbatim>\<open>df.iloc[idx]\<close>), the same rows in every column.\<close>

fun iloc :: "nat list \<Rightarrow> coldata \<Rightarrow> coldata" where
  "iloc idx (ObjectCol xs) = ObjectCol (map (\<lambda>i. xs ! i) idx)"
| "iloc idx (BoolCol xs) = BoolCol (map (\<lambda>i. xs ! i) idx)"
| "iloc idx (Int64Col xs) = Int64Col (map (\<lambda>i. xs ! i) idx)"
| "iloc idx (Float64Col xs) = Float64Col (map (\<lambda>i. xs ! i) idx)"
| "iloc idx (DatetimeCol xs) = DatetimeCol (map (\<lambda>i. xs ! i) idx)"
| "iloc idx (CategoryCol xs) = CategoryCol (map (\<lambda>i. xs ! i) idx)"
| "iloc idx (DatetimeTZCol z xs) = DatetimeTZCol z (map (\<lambda>i. xs ! i) idx)"

definition take_rows :: "nat list \<Rightarrow> dataframe \<Rightarrow> dataframe" where
  "take_rows idx df = map (\<lambda>c. c\<lparr>data := iloc idx (data c)\<rparr>) df"

section \<open>Errors\<close>

text \<open>
  The exceptions the program can raise. \<open>ReadError\<close> stands for whatever the file
  parsers (\<^verbatim>\<open>read_csv\<close>, \<^verbatim>\<open>read_excel\<close>) raise, and \<open>ValueError\<close> for what
  \<^verbatim>\<open>to_datetime\<close> raises on a text column it cannot convert as a whole, each with its
  message.
\<close>

datatype error = ZeroDivisionError | KeyError | ValueError string | ReadError string

fun str_of_error :: "error \<Rightarrow> string" where
  "str_of_error ZeroDivisionError = ''division by zero''"
| "str_of_error KeyError = ''0''"
| "str_of_error (ValueError m) = m"
| "str_of_error (ReadError m) = m"

section \<open>Library functions the program calls\<close>

subsection \<open>Text parsing, taken as parameters\<close>

text \<open>
  How pandas reads a number or a timestamp out of a string is not part of this
  repository; the conversions are parameters of the model. \<open>None\<close> means the value
  does not parse (or is NaN/NaT). The timestamp parser sees the whole column, since pandas
  infers one format for it.

  What \<^verbatim>\<open>to_datetime\<close> returns for a text column as a whole is a parameter too
  (\<open>date_outcome\<close>): a column without time zone; a column with a time zone, when the texts
  carry one UTC offset; an \<^verbatim>\<open>object\<close> column of timestamps, when they carry differing
  offsets (\<open>stamp_text\<close> gives the text of each); or an exception.
\<close>

datatype numv = IntN int | FloatN fl

datatype dt_outcome = DtNaive | DtAware string | DtObject | DtRaise string

record parsers =
  str_to_num :: "string \<Rightarrow> numv option"
  str_to_ts :: "string option list \<Rightarrow> string \<Rightarrow> int option"
  float_to_ts :: "fl \<Rightarrow> int option"
  date_outcome :: "string option list \<Rightarrow> dt_outcome"
  stamp_text :: "string option list \<Rightarrow> string \<Rightarrow> string option"

subsection \<open>\<^verbatim>\<open>drop_duplicates\<close>\<close>

text \<open>
  Row \<open>i\<close> is kept when no earlier row equals it in every column; two missing markers
  in the same column count as equal.
\<close>

definition kept_rows :: "dataframe \<Rightarrow> nat list" where
  "kept_rows df = filter (\<lambda>i. row df i \<notin> set (map (row df) [0..<i])) [0..<nrows df]"

definition drop_duplicates :: "dataframe \<Rightarrow> dataframe" where
  "drop_duplicates df = take_rows (kept_rows df) df"

subsection \<open>\<^verbatim>\<open>nunique\<close>, \<^verbatim>\<open>to_numeric\<close>, \<^verbatim>\<open>to_datetime\<close>\<close>

text \<open>\<^verbatim>\<open>Series.nunique()\<close>: the number of distinct values, the missing marker not counted.\<close>

definition nunique :: "'a option list \<Rightarrow> nat" where
  "nunique xs = length (remdups (filter (\<lambda>x. x \<noteq> None) xs))"

text \<open>Python's \<^verbatim>\<open>/\<close> on two integers: a ZeroDivisionError when the divisor is 0.\<close>

definition truediv :: "nat \<Rightarrow> nat \<Rightarrow> error + rat" where
  "truediv a b = (if b = 0 then Inl ZeroDivisionError else Inr (of_nat a / of_nat b))"

text \<open>The smallest 64-bit integer is how \<^verbatim>\<open>datetime64\<close> stores NaT.\<close>

definition iNaT :: int where
  "iNaT = - (2 ^ 63)"

definition ts_of_int :: "int \<Rightarrow> int option" where
  "ts_of_int i = (if i = iNaT then None else Some i)"

definition int_of_ts :: "int option \<Rightarrow> int" where
  "int_of_ts t = (case t of None \<Rightarrow> iNaT | Some n \<Rightarrow> n)"

fun is_intn :: "numv option \<Rightarrow> bool" where
  "is_intn (Some (IntN i)) = True"
| "is_intn v = False"

fun intn :: "numv option \<Rightarrow> int" where
  "intn (Some (IntN i)) = i"
| "intn v = 0"

fun floatn :: "numv option \<Rightarrow> fl option" where
  "floatn None = None"
| "floatn (Some (IntN i)) = Some (Fin (of_int i))"
| "floatn (Some (FloatN f)) = Some f"

text \<open>
  \<^verbatim>\<open>to_numeric(..., errors='coerce')\<close> on strings: a string that is not a number becomes
  NaN; the result is \<^verbatim>\<open>int64\<close> when every value is an integer, \<^verbatim>\<open>float64\<close> otherwise.
\<close>

definition convert_numeric :: "parsers \<Rightarrow> string option list \<Rightarrow> coldata" where
  "convert_numeric ps xs =
     (let ys = map (\<lambda>x. case x of None \<Rightarrow> None | Some s \<Rightarrow> str_to_num ps s) xs
      in if list_all is_intn ys then Int64Col (map intn ys) else Float64Col (map floatn ys))"

text \<open>
  \<^verbatim>\<open>to_numeric\<close> leaves numeric and boolean storage alone, reads a \<^verbatim>\<open>datetime64\<close>
  column, with or without time zone, as its 64-bit integers, and parses anything else as
  text.
\<close>

fun to_numeric :: "parsers \<Rightarrow> coldata \<Rightarrow> coldata" where
  "to_numeric ps (Int64Col xs) = Int64Col xs"
| "to_numeric ps (Float64Col xs) = Float64Col xs"
| "to_numeric ps (BoolCol xs) = BoolCol xs"
| "to_numeric ps (DatetimeCol xs) = Int64Col (map int_of_ts xs)"
| "to_numeric ps (ObjectCol xs) = convert_numeric ps xs"
| "to_numeric ps (CategoryCol xs) = convert_numeric ps xs"
| "to_numeric ps (DatetimeTZCol z xs) = Int64Col (map int_of_ts xs)"

definition parse_dates :: "parsers \<Rightarrow> string option list \<Rightarrow> int option list" where
  "parse_dates ps xs =
     map (\<lambda>x. case x of None \<Rightarrow> None
               | Some s \<Rightarrow> (case str_to_ts ps xs s of None \<Rightarrow> None | Some t \<Rightarrow> ts_of_int t)) xs"

definition float_dates :: "parsers \<Rightarrow> fl option list \<Rightarrow> int option list" where
  "float_dates ps xs =
     map (\<lambda>x. case x of None \<Rightarrow> None
               | Some v \<Rightarrow> (case float_to_ts ps v of None \<Rightarrow> None | Some t \<Rightarrow> ts_of_int t)) xs"

definition text_dates :: "parsers \<Rightarrow> string option list \<Rightarrow> error + coldata" where
  "text_dates ps xs =
     (case date_outcome ps xs of
        DtNaive \<Rightarrow> Inr (DatetimeCol (parse_dates ps xs))
      | DtAware z \<Rightarrow> Inr (DatetimeTZCol z (parse_dates ps xs))
      | DtObject \<Rightarrow>
          Inr (ObjectCol (map (\<lambda>x. case x of None \<Rightarrow> None | Some s \<Rightarrow> stamp_text ps xs s) xs))
      | DtRaise m \<Rightarrow> Inl (ValueError m))"

text \<open>
  \<^verbatim>\<open>to_datetime(..., errors='coerce')\<close>: integers are nanoseconds since the epoch; text
  is parsed and what does not parse becomes NaT; a boolean column cannot be converted, and
  with \<^verbatim>\<open>errors='coerce'\<close> the result is a column of NaT; a datetime column is returned
  as it is.
\<close>

fun to_datetime :: "parsers \<Rightarrow> coldata \<Rightarrow> error + coldata" where
  "to_datetime ps (BoolCol xs) = Inr (DatetimeCol (map (\<lambda>b. None) xs))"
| "to_datetime ps (Int64Col xs) = Inr (DatetimeCol (map ts_of_int xs))"
| "to_datetime ps (Float64Col xs) = Inr (DatetimeCol (float_dates ps xs))"
| "to_datetime ps (DatetimeCol xs) = Inr (DatetimeCol xs)"
| "to_datetime ps (DatetimeTZCol z xs) = Inr (DatetimeTZCol z xs)"
| "to_datetime ps (ObjectCol xs) = text_dates ps xs"
| "to_datetime ps (CategoryCol xs) = text_dates ps xs"

subsection \<open>Order and mean of floating-point values, the median\<close>

instantiation fl :: linorder
begin

fun less_eq_fl :: "fl \<Rightarrow> fl \<Rightarrow> bool" where
  "less_eq_fl NInf b = True"
| "less_eq_fl (Fin x) NInf = False"
| "less_eq_fl (Fin x) (Fin y) = (x \<le> y)"
| "less_eq_fl (Fin x) PInf = True"
| "less_eq_fl PInf PInf = True"
| "less_eq_fl PInf b = False"

definition less_fl :: "fl \<Rightarrow> fl \<Rightarrow> bool" where
  "less_fl a b = (a \<le> b \<and> \<not> b \<le> a)"

instance
proof
  fix x y z :: fl
  show "(x < y) = (x \<le> y \<and> \<not> y \<le> x)" by (simp add: less_fl_def)
  show "x \<le> x" by (cases x) auto
  show "x \<le> y \<Longrightarrow> y \<le> z \<Longrightarrow> x \<le> z" by (cases x; cases y; cases z) auto
  show "x \<le> y \<Longrightarrow> y \<le> x \<Longrightarrow> x = y" by (cases x; cases y) auto
  show "x \<le> y \<or> y \<le> x" by (cases x; cases y) auto
qed

end

text \<open>
  Rounding to \<^verbatim>\<open>float64\<close> (IEEE 754 binary64, round to nearest, ties to even). For
  \<open>a > 0\<close>, \<open>floor_log2 a\<close> is the \<open>e\<close> with \<open>2^e \<le> a < 2^(e+1)\<close>. A number is rounded
  to \<open>m\<close> times \<open>2^(e - 52)\<close>, where \<open>e\<close> is not taken below \<open>-1022\<close> (subnormal numbers).
  The result is an infinity when it is \<open>2^1024\<close> or more: the number itself is (\<open>e\<close> is
  1024 or more), or it rounds up to \<open>2^1024\<close> (\<open>e = 1023\<close> and \<open>m = 2^53\<close>).
\<close>

function bit_length :: "int \<Rightarrow> int" where
  "bit_length n = (if n \<le> 0 then 0 else 1 + bit_length (n div 2))"
  by pat_completeness auto
termination
  by (relation "measure nat") auto

declare bit_length.simps [simp del]

definition pow2 :: "int \<Rightarrow> rat" where
  "pow2 k = (if 0 \<le> k then 2 ^ nat k else 1 / 2 ^ nat (- k))"

definition floor_log2 :: "rat \<Rightarrow> int" where
  "floor_log2 a =
     (case quotient_of a of
        (p, q) \<Rightarrow>
          let e = bit_length p - bit_length q
          in if pow2 e \<le> a then e else e - 1)"

definition round_half_even :: "rat \<Rightarrow> int" where
  "round_half_even x =
     (let f = \<lfloor>x\<rfloor>; d = x - of_int f
      in if d < 1 / 2 then f else if 1 / 2 < d then f + 1 else if even f then f else f + 1)"

definition round64 :: "rat \<Rightarrow> fl" where
  "round64 r =
     (if r = 0 then Fin 0
      else
        let a = \<bar>r\<bar>; e = max (floor_log2 a) (- 1022)
        in if 1024 \<le> e then (if 0 < r then PInf else NInf)
           else
             let m = round_half_even (a / pow2 (e - 52))
             in if e = 1023 \<and> m = 2 ^ 53 then (if 0 < r then PInf else NInf)
                else Fin (if 0 < r then of_int m * pow2 (e - 52)
                          else - (of_int m * pow2 (e - 52))))"

text \<open>
  The sum of two values and the half of one, as IEEE arithmetic gives them: the sum of the
  two infinities of opposite sign is NaN (\<open>None\<close>). The mean of two values is their sum
  divided by two, which is how the median of an even number of values is computed.
\<close>

fun fl_add :: "fl \<Rightarrow> fl \<Rightarrow> fl option" where
  "fl_add (Fin x) (Fin y) = Some (round64 (x + y))"
| "fl_add PInf NInf = None"
| "fl_add NInf PInf = None"
| "fl_add PInf b = Some PInf"
| "fl_add a PInf = Some PInf"
| "fl_add NInf b = Some NInf"
| "fl_add a NInf = Some NInf"

fun fl_half :: "fl \<Rightarrow> fl" where
  "fl_half (Fin x) = round64 (x / 2)"
| "fl_half PInf = PInf"
| "fl_half NInf = NInf"

definition fl_mean :: "fl \<Rightarrow> fl \<Rightarrow> fl option" where
  "fl_mean a b = (case fl_add a b of None \<Rightarrow> None | Some s \<Rightarrow> Some (fl_half s))"

text \<open>The values of a column that are not missing.\<close>

definition dropna :: "'a option list \<Rightarrow> 'a list" where
  "dropna xs = map the (filter (\<lambda>x. x \<noteq> None) xs)"

text \<open>
  \<^verbatim>\<open>median()\<close> skips NaN: the middle of the sorted values, or the mean of the two
  middle ones; NaN for a column with no value.
\<close>

definition median :: "fl option list \<Rightarrow> fl option" where
  "median xs =
     (let s = sort (dropna xs); n = length s
      in if n = 0 then None
         else if odd n then Some (s ! (n div 2))
         else fl_mean (s ! (n div 2 - 1)) (s ! (n div 2)))"

text \<open>\<^verbatim>\<open>fillna(v)\<close>: each missing marker becomes \<open>v\<close>; filling with NaN or NaT changes nothing.\<close>

definition fillna :: "'a option \<Rightarrow> 'a option list \<Rightarrow> 'a option list" where
  "fillna v xs = map (\<lambda>x. case x of None \<Rightarrow> v | Some y \<Rightarrow> Some y) xs"

text \<open>\<^verbatim>\<open>astype(str)\<close> writes the missing marker as the text \<^verbatim>\<open>nan\<close>.\<close>

definition astype_str :: "string option list \<Rightarrow> string option list" where
  "astype_str xs = map (\<lambda>x. case x of None \<Rightarrow> Some ''nan'' | Some s \<Rightarrow> Some s) xs"

text \<open>\<^verbatim>\<open>mode()\<close> of a boolean column: the most frequent values, sorted.\<close>

definition mode_bool :: "bool list \<Rightarrow> bool list" where
  "mode_bool bs =
     (let t = count_list bs True; f = count_list bs False
      in if bs = [] then [] else if t < f then [False] else if f < t then [True]
         else [False, True])"

text \<open>\<^verbatim>\<open>s[0]\<close> on a result Series: a KeyError when it is empty.\<close>

definition getitem0 :: "'a list \<Rightarrow> error + 'a" where
  "getitem0 xs = (case xs of [] \<Rightarrow> Inl KeyError | x # _ \<Rightarrow> Inr x)"

text \<open>\<^verbatim>\<open>min()\<close> of a datetime column skips NaT; NaT for a column with no value.\<close>

definition ts_min :: "int option list \<Rightarrow> int option" where
  "ts_min xs = (case dropna xs of [] \<Rightarrow> None | t # ts \<Rightarrow> Some (fold min ts t))"

section \<open>\<^verbatim>\<open>clean_data\<close>\<close>

subsection \<open>First loop: per-column type inference\<close>

text \<open>
  \<^verbatim>\<open>
    for col in df.columns:
        if df[col].dtype == 'object':
            unique_ratio = df[col].nunique() / len(df)
            if unique_ratio < 0.3:
                df[col] = df[col].astype("category")
        elif df[col].dtype == "bool":
            df[col] = df[col].astype(bool)
        else:
            try:
                df[col] = pd.to_numeric(df[col], errors='coerce')
            except:
                pass
  \<close>
  \<open>n\<close> is \<^verbatim>\<open>len(df)\<close>, which no assignment in the loop changes. The comparison with
  \<^verbatim>\<open>0.3\<close> is exact here.
\<close>

definition infer_col :: "parsers \<Rightarrow> nat \<Rightarrow> column \<Rightarrow> error + column" where
  "infer_col ps n c =
     (case data c of
        ObjectCol xs \<Rightarrow>
          (case truediv (nunique xs) n of
             Inl e \<Rightarrow> Inl e
           | Inr unique_ratio \<Rightarrow>
               if unique_ratio < 3 / 10 then Inr (c\<lparr>data := CategoryCol xs\<rparr>) else Inr c)
      | BoolCol xs \<Rightarrow> Inr (c\<lparr>data := BoolCol xs\<rparr>)
      | d \<Rightarrow> Inr (c\<lparr>data := to_numeric ps d\<rparr>))"

fun infer_loop :: "parsers \<Rightarrow> nat \<Rightarrow> column list \<Rightarrow> error + column list" where
  "infer_loop ps n [] = Inr []"
| "infer_loop ps n (c # cs) =
     (case infer_col ps n c of
        Inl e \<Rightarrow> Inl e
      | Inr c' \<Rightarrow> (case infer_loop ps n cs of Inl e \<Rightarrow> Inl e | Inr cs' \<Rightarrow> Inr (c' # cs')))"

definition infer_types :: "parsers \<Rightarrow> dataframe \<Rightarrow> error + dataframe" where
  "infer_types ps df = infer_loop ps (nrows df) df"

subsection \<open>Second loop: date and time columns by name\<close>

definition lower_char :: "char \<Rightarrow> char" where
  "lower_char c =
     (let n = (of_char c :: nat) in if 65 \<le> n \<and> n \<le> 90 then char_of (n + 32) else c)"

definition lower :: "string \<Rightarrow> string" where
  "lower s = map lower_char s"

fun starts_with :: "string \<Rightarrow> string \<Rightarrow> bool" where
  "starts_with [] s = True"
| "starts_with (k # ks) [] = False"
| "starts_with (k # ks) (c # cs) = (k = c \<and> starts_with ks cs)"

text \<open>Python's \<^verbatim>\<open>k in s\<close> on strings: \<open>k\<close> occurs in \<open>s\<close> as a substring.\<close>

fun contains :: "string \<Rightarrow> string \<Rightarrow> bool" where
  "contains k [] = (k = [])"
| "contains k (c # cs) = (starts_with k (c # cs) \<or> contains k cs)"

definition date_keywords :: "string list" where
  "date_keywords = [''date'', ''time'', ''year'', ''day'', ''month'']"

definition is_date_name :: "string \<Rightarrow> bool" where
  "is_date_name s = list_ex (\<lambda>keyword. contains keyword (lower s)) date_keywords"

text \<open>
  \<^verbatim>\<open>
    for col in df.columns:
        if any(keyword in col.lower() for keyword in ["date", "time", "year", "day", "month"]):
            try:
                df[col] = pd.to_datetime(df[col], errors='coerce')
            except:
                pass
  \<close>
\<close>

definition date_col :: "parsers \<Rightarrow> column \<Rightarrow> column" where
  "date_col ps c =
     (if is_date_name (name c)
      then (case to_datetime ps (data c) of Inl e \<Rightarrow> c | Inr d \<Rightarrow> c\<lparr>data := d\<rparr>)
      else c)"

definition convert_dates :: "parsers \<Rightarrow> dataframe \<Rightarrow> dataframe" where
  "convert_dates ps df = map (date_col ps) df"

subsection \<open>Filling missing values\<close>

text \<open>
  \<^verbatim>\<open>
    num_cols = df.select_dtypes(include=['number']).columns
    df[num_cols] = df[num_cols].fillna(df[num_cols].median())
  \<close>
  An \<^verbatim>\<open>int64\<close> column has nothing to fill.
\<close>

definition fill_num_col :: "column \<Rightarrow> column" where
  "fill_num_col c =
     (case data c of
        Float64Col xs \<Rightarrow> c\<lparr>data := Float64Col (fillna (median xs) xs)\<rparr>
      | Int64Col xs \<Rightarrow> c\<lparr>data := Int64Col xs\<rparr>
      | d \<Rightarrow> c)"

text \<open>
  \<^verbatim>\<open>
    cat_cols = df.select_dtypes(include=['category']).columns
    for col in cat_cols:
        df[col] = df[col].astype(str)
        df[col] = df[col].fillna("Unknown")
        df[col] = df[col].astype("category")
  \<close>
\<close>

definition fill_cat_col :: "column \<Rightarrow> column" where
  "fill_cat_col c =
     (case data c of
        CategoryCol xs \<Rightarrow> c\<lparr>data := CategoryCol (fillna (Some ''Unknown'') (astype_str xs))\<rparr>
      | d \<Rightarrow> c)"

text \<open>
  \<^verbatim>\<open>
    bool_cols = df.select_dtypes(include=['bool']).columns
    for col in bool_cols:
        df[col] = df[col].fillna(df[col].mode()[0])
  \<close>
  The fill value is looked up first; a boolean column has nothing to fill.
\<close>

definition fill_bool_col :: "column \<Rightarrow> error + column" where
  "fill_bool_col c =
     (case data c of
        BoolCol xs \<Rightarrow>
          (case getitem0 (mode_bool xs) of Inl e \<Rightarrow> Inl e | Inr v \<Rightarrow> Inr (c\<lparr>data := BoolCol xs\<rparr>))
      | d \<Rightarrow> Inr c)"

fun fill_bool_loop :: "column list \<Rightarrow> error + column list" where
  "fill_bool_loop [] = Inr []"
| "fill_bool_loop (c # cs) =
     (case fill_bool_col c of
        Inl e \<Rightarrow> Inl e
      | Inr c' \<Rightarrow> (case fill_bool_loop cs of Inl e \<Rightarrow> Inl e | Inr cs' \<Rightarrow> Inr (c' # cs')))"

text \<open>
  \<^verbatim>\<open>
    datetime_cols = df.select_dtypes(include=['datetime']).columns
    for col in datetime_cols:
        df[col] = df[col].fillna(df[col].min())
  \<close>
\<close>

definition fill_dt_col :: "column \<Rightarrow> column" where
  "fill_dt_col c =
     (case data c of
        DatetimeCol xs \<Rightarrow> c\<lparr>data := DatetimeCol (fillna (ts_min xs) xs)\<rparr>
      | d \<Rightarrow> c)"

definition fill_missing :: "dataframe \<Rightarrow> error + dataframe" where
  "fill_missing df =
     (case fill_bool_loop (map fill_cat_col (map fill_num_col df)) of
        Inl e \<Rightarrow> Inl e
      | Inr df' \<Rightarrow> Inr (map fill_dt_col df'))"

subsection \<open>The whole function\<close>

text \<open>The table as it stands when the filling of missing values starts.\<close>

definition before_fill :: "parsers \<Rightarrow> dataframe \<Rightarrow> error + dataframe" where
  "before_fill ps df =
     (case infer_types ps (drop_duplicates df) of
        Inl e \<Rightarrow> Inl e
      | Inr df' \<Rightarrow> Inr (convert_dates ps df'))"

definition clean_data :: "parsers \<Rightarrow> dataframe \<Rightarrow> error + dataframe" where
  "clean_data ps df =
     (case before_fill ps df of Inl e \<Rightarrow> Inl e | Inr df' \<Rightarrow> fill_missing df')"

section \<open>\<^verbatim>\<open>load_data\<close>\<close>

text \<open>
  \<^verbatim>\<open>
    def load_data(file):
        if file is not None:
            try:
                df = pd.read_csv(file) if file.name.endswith('.csv') else pd.read_excel(file)
                df = clean_data(df)
                return df
            except Exception as e:
                st.error(f"Error loading file: {e}")
                return None
        return None
  \<close>
  The two readers are parameters. The result comes with the messages handed to
  \<^verbatim>\<open>st.error\<close>.
\<close>

record 'a upload =
  filename :: string
  content :: 'a

record 'a readers =
  read_csv :: "'a upload \<Rightarrow> error + dataframe"
  read_excel :: "'a upload \<Rightarrow> error + dataframe"

definition endswith :: "string \<Rightarrow> string \<Rightarrow> bool" where
  "endswith s suffix = starts_with (rev suffix) (rev s)"

definition load_data ::
  "parsers \<Rightarrow> 'a readers \<Rightarrow> 'a upload option \<Rightarrow> dataframe option \<times> string list" where
  "load_data ps rd file =
     (case file of
        None \<Rightarrow> (None, [])
      | Some f \<Rightarrow>
          (case (if endswith (filename f) ''.csv'' then read_csv rd f else read_excel rd f) of
             Inl e \<Rightarrow> (None, [''Error loading file: '' @ str_of_error e])
           | Inr df \<Rightarrow>
               (case clean_data ps df of
                  Inl e \<Rightarrow> (None, [''Error loading file: '' @ str_of_error e])
                | Inr df' \<Rightarrow> (Some df', []))))"

section \<open>\<^verbatim>\<open>get_dataset_summary\<close>\<close>

text \<open>
  The summary is a text with seven interpolated fields; the model keeps the fields.
  \<open>sample\<close> is \<^verbatim>\<open>df.head(3)\<close>, the table that \<^verbatim>\<open>to_string\<close> then prints.
\<close>

definition select_dtypes :: "dtype list \<Rightarrow> dataframe \<Rightarrow> dataframe" where
  "select_dtypes include df = filter (\<lambda>c. dtype c \<in> set include) df"

definition columns :: "dataframe \<Rightarrow> string list" where
  "columns df = map name df"

definition head :: "nat \<Rightarrow> dataframe \<Rightarrow> dataframe" where
  "head k df = take_rows [0..<min k (nrows df)] df"

record summary =
  num_rows :: nat
  num_cols :: nat
  numeric_columns :: "string list"
  categorical_columns :: "string list"
  datetime_columns :: "string list"
  boolean_columns :: "string list"
  sample :: dataframe

definition get_dataset_summary :: "dataframe \<Rightarrow> summary" where
  "get_dataset_summary df =
     \<lparr> num_rows = nrows df,
       num_cols = length df,
       numeric_columns = columns (select_dtypes [Int64, Float64] df),
       categorical_columns = columns (select_dtypes [Object, Category] df),
       datetime_columns = columns (select_dtypes [Datetime] df),
       boolean_columns = columns (select_dtypes [Bool] df),
       sample = head 3 df \<rparr>"

section \<open>Auxiliary definitions for the statements\<close>

text \<open>
  A stand-in for the parsers in the concrete examples. It is not pandas' parser: it knows
  the numbers \<^verbatim>\<open>1\<close> and \<^verbatim>\<open>2.5\<close> and the timestamps \<^verbatim>\<open>2021-01-01\<close> and
  \<^verbatim>\<open>2021-01-01T00:00:00Z\<close> (both 1609459200000000000 ns), and every other text does not
  parse. A column in which a text ends in \<^verbatim>\<open>Z\<close> comes out with the time zone UTC, any
  other column without time zone. A finite float is cut to its integer part (toward zero).
\<close>

definition toy_parsers :: parsers where
  "toy_parsers =
     \<lparr> str_to_num = (\<lambda>s. if s = ''1'' then Some (IntN 1)
                          else if s = ''2.5'' then Some (FloatN (Fin (5 / 2))) else None),
       str_to_ts = (\<lambda>xs s. if s = ''2021-01-01'' \<or> s = ''2021-01-01T00:00:00Z''
                             then Some 1609459200000000000 else None),
       float_to_ts = (\<lambda>v. case v of Fin r \<Rightarrow> Some (if r < 0 then - \<lfloor>- r\<rfloor> else \<lfloor>r\<rfloor>)
                                | _ \<Rightarrow> None),
       date_outcome = (\<lambda>xs. if list_ex (\<lambda>x. case x of None \<Rightarrow> False
                                                | Some s \<Rightarrow> s \<noteq> [] \<and> last s = CHR ''Z'') xs
                              then DtAware ''UTC'' else DtNaive),
       stamp_text = (\<lambda>xs s. None) \<rparr>"

text \<open>A cell that holds a finite number.\<close>

fun finite_cell :: "cell \<Rightarrow> bool" where
  "finite_cell (FloatV (Fin r)) = True"
| "finite_cell v = False"

text \<open>
  A column without a finite number in which \<open>+inf\<close> and \<open>-inf\<close> occur equally often.
\<close>

definition balanced_infinities :: "column \<Rightarrow> bool" where
  "balanced_infinities c =
     (\<not> list_ex finite_cell (cells c)
      \<and> count_list (cells c) (FloatV PInf) = count_list (cells c) (FloatV NInf))"

text \<open>A datetime column with a time zone.\<close>

definition tz_aware :: "column \<Rightarrow> bool" where
  "tz_aware c = (case data c of DatetimeTZCol z xs \<Rightarrow> True | _ \<Rightarrow> False)"

text \<open>
  The unique ratio in the words of the specification: the number of distinct non-missing
  values of the column, divided by the number of rows.
\<close>

definition unique_ratio :: "column \<Rightarrow> nat \<Rightarrow> rat" where
  "unique_ratio c n = of_nat (card (set (cells c) - {NA})) / of_nat n"

section \<open>Proofs\<close>

subsection \<open>Row selection and deduplication\<close>

lemma length_cells_of_iloc: "length (cells_of (iloc idx d)) = length idx"
  by (cases d) simp_all

lemma cells_of_iloc:
  assumes "list_all (\<lambda>i. i < length (cells_of d)) idx"
  shows "cells_of (iloc idx d) = map (\<lambda>i. cells_of d ! i) idx"
  using assms by (cases d) (simp_all add: list_all_iff)

lemma dtype_of_iloc: "dtype_of (iloc idx d) = dtype_of d"
  by (cases d) simp_all

lemma nrows_take_rows: "df \<noteq> [] \<Longrightarrow> nrows (take_rows idx df) = length idx"
  by (cases df) (simp_all add: nrows_def take_rows_def col_len_def cells_def length_cells_of_iloc)

lemma wf_take_rows: "wf_df (take_rows idx df)"
  by (cases df)
     (simp_all add: wf_df_def nrows_def take_rows_def col_len_def cells_def length_cells_of_iloc
        list_all_iff)

lemma wf_col_len: "wf_df df \<Longrightarrow> c \<in> set df \<Longrightarrow> col_len c = nrows df"
  by (simp add: wf_df_def list_all_iff)

lemma row_take_rows:
  assumes "wf_df df" and "list_all (\<lambda>i. i < nrows df) idx" and "j < length idx"
  shows "row (take_rows idx df) j = row df (idx ! j)"
proof -
  have "cells (c\<lparr>data := iloc idx (data c)\<rparr>) ! j = cells c ! (idx ! j)" if "c \<in> set df" for c
  proof -
    have "length (cells_of (data c)) = nrows df"
      using wf_col_len [OF assms(1) that] by (simp add: col_len_def cells_def)
    then have "list_all (\<lambda>i. i < length (cells_of (data c))) idx"
      using assms(2) by simp
    then show ?thesis
      using assms(3) by (simp add: cells_def cells_of_iloc)
  qed
  then show ?thesis
    by (simp add: row_def take_rows_def)
qed

lemma rows_of_take_rows:
  assumes "wf_df df" and "list_all (\<lambda>i. i < nrows df) idx" and "df \<noteq> []"
  shows "rows_of (take_rows idx df) = map (row df) idx"
proof (rule nth_equalityI)
  show "length (rows_of (take_rows idx df)) = length (map (row df) idx)"
    using assms(3) by (simp add: rows_of_def nrows_take_rows)
next
  fix j assume "j < length (rows_of (take_rows idx df))"
  then have j: "j < length idx"
    using assms(3) by (simp add: rows_of_def nrows_take_rows)
  then show "rows_of (take_rows idx df) ! j = map (row df) idx ! j"
    using assms(3) row_take_rows [OF assms(1,2) j] by (simp add: rows_of_def nrows_take_rows)
qed

lemma kept_rows_bound: "list_all (\<lambda>i. i < nrows df) (kept_rows df)"
  by (simp add: kept_rows_def list_all_iff)

lemma distinct_first_occurrences:
  "distinct (map f (filter (\<lambda>i. f i \<notin> set (map f [0..<i])) [0..<n]))"
proof (induction n)
  case 0
  show ?case by simp
next
  case (Suc n)
  have "f n \<notin> f ` set (filter (\<lambda>i. f i \<notin> set (map f [0..<i])) [0..<n])"
    if "f n \<notin> set (map f [0..<n])"
    using that by auto
  with Suc show ?case by auto
qed

lemma distinct_rows_drop_duplicates:
  assumes "wf_df df"
  shows "distinct (rows_of (drop_duplicates df))"
proof (cases "df = []")
  case True
  then show ?thesis
    by (simp add: drop_duplicates_def take_rows_def rows_of_def nrows_def)
next
  case False
  have "rows_of (drop_duplicates df) = map (row df) (kept_rows df)"
    unfolding drop_duplicates_def
    by (rule rows_of_take_rows [OF assms kept_rows_bound False])
  then show ?thesis
    using distinct_first_occurrences [of "row df" "nrows df"] by (simp add: kept_rows_def)
qed

subsection \<open>Column-wise facts about the three stages\<close>

lemma length_cells_convert_numeric: "length (cells_of (convert_numeric ps xs)) = length xs"
  by (simp add: convert_numeric_def Let_def)

lemma length_cells_to_numeric: "length (cells_of (to_numeric ps d)) = length (cells_of d)"
  by (cases d) (simp_all add: length_cells_convert_numeric)

lemma length_cells_text_dates:
  "text_dates ps xs = Inr d' \<Longrightarrow> length (cells_of d') = length xs"
  by (auto simp: text_dates_def parse_dates_def split: dt_outcome.splits)

lemma length_cells_to_datetime:
  "to_datetime ps d = Inr d' \<Longrightarrow> length (cells_of d') = length (cells_of d)"
  by (cases d) (auto simp: float_dates_def length_cells_text_dates)

lemma infer_col_name: "infer_col ps n c = Inr c' \<Longrightarrow> name c' = name c"
  by (auto simp: infer_col_def truediv_def split: coldata.splits if_splits sum.splits)

lemma infer_col_len: "infer_col ps n c = Inr c' \<Longrightarrow> col_len c' = col_len c"
  by (auto simp: infer_col_def truediv_def col_len_def cells_def length_cells_convert_numeric
      split: coldata.splits if_splits sum.splits)

lemma date_col_name: "name (date_col ps c) = name c"
  by (simp add: date_col_def split: sum.splits)

lemma date_col_len: "col_len (date_col ps c) = col_len c"
  by (simp add: date_col_def col_len_def cells_def length_cells_to_datetime split: sum.splits)

lemma fill_num_col_name: "name (fill_num_col c) = name c"
  by (simp add: fill_num_col_def split: coldata.splits)

lemma fill_num_col_len: "col_len (fill_num_col c) = col_len c"
  by (simp add: fill_num_col_def col_len_def cells_def fillna_def split: coldata.splits)

lemma fill_cat_col_name: "name (fill_cat_col c) = name c"
  by (simp add: fill_cat_col_def split: coldata.splits)

lemma fill_cat_col_len: "col_len (fill_cat_col c) = col_len c"
  by (simp add: fill_cat_col_def col_len_def cells_def fillna_def astype_str_def
      split: coldata.splits)

lemma fill_dt_col_name: "name (fill_dt_col c) = name c"
  by (simp add: fill_dt_col_def split: coldata.splits)

lemma fill_dt_col_len: "col_len (fill_dt_col c) = col_len c"
  by (simp add: fill_dt_col_def col_len_def cells_def fillna_def split: coldata.splits)

lemma getitem0_mode_bool:
  "getitem0 (mode_bool xs) = (if xs = [] then Inl KeyError else Inr (hd (mode_bool xs)))"
  by (simp add: getitem0_def mode_bool_def Let_def)

lemma fill_bool_col_eq:
  "fill_bool_col c = (if data c = BoolCol [] then Inl KeyError else Inr c)"
proof (cases "data c")
  case (BoolCol xs)
  then have "c\<lparr>data := BoolCol xs\<rparr> = c" by simp
  then show ?thesis using BoolCol by (simp add: fill_bool_col_def getitem0_mode_bool)
qed (simp_all add: fill_bool_col_def)

subsection \<open>The loops\<close>

lemma infer_loop_Inr_D:
  "infer_loop ps n cs = Inr cs' \<Longrightarrow> list_all2 (\<lambda>c c'. infer_col ps n c = Inr c') cs cs'"
  by (induction cs arbitrary: cs') (auto split: sum.splits)

lemma infer_loop_Inr_I:
  "list_all2 (\<lambda>c c'. infer_col ps n c = Inr c') cs cs' \<Longrightarrow> infer_loop ps n cs = Inr cs'"
  by (induction cs cs' rule: list_all2_induct) auto

lemma infer_loop_Inr:
  "infer_loop ps n cs = Inr cs' \<longleftrightarrow> list_all2 (\<lambda>c c'. infer_col ps n c = Inr c') cs cs'"
  using infer_loop_Inr_D infer_loop_Inr_I by blast

lemma infer_loop_Inl:
  "infer_loop ps n cs = Inl e \<Longrightarrow> \<exists>c\<in>set cs. infer_col ps n c = Inl e"
  by (induction cs) (auto split: sum.splits)

lemma fill_bool_loop_eq:
  "fill_bool_loop cs = (if list_ex (\<lambda>c. data c = BoolCol []) cs then Inl KeyError else Inr cs)"
  by (induction cs) (simp_all add: fill_bool_col_eq)

subsection \<open>What the filling steps do to one column\<close>

lemma fill_num_col_Bool [simp]: "data (fill_num_col c) = BoolCol xs \<longleftrightarrow> data c = BoolCol xs"
  by (cases "data c") (simp_all add: fill_num_col_def)

lemma fill_cat_col_Bool [simp]: "data (fill_cat_col c) = BoolCol xs \<longleftrightarrow> data c = BoolCol xs"
  by (cases "data c") (simp_all add: fill_cat_col_def)

lemma fill_dt_col_Bool [simp]: "data (fill_dt_col c) = BoolCol xs \<longleftrightarrow> data c = BoolCol xs"
  by (cases "data c") (simp_all add: fill_dt_col_def)

lemma fill_col_cases:
  "fill_dt_col (fill_cat_col (fill_num_col c)) =
     (case data c of
        Float64Col xs \<Rightarrow> c\<lparr>data := Float64Col (fillna (median xs) xs)\<rparr>
      | CategoryCol xs \<Rightarrow> c\<lparr>data := CategoryCol (fillna (Some ''Unknown'') (astype_str xs))\<rparr>
      | DatetimeCol xs \<Rightarrow> c\<lparr>data := DatetimeCol (fillna (ts_min xs) xs)\<rparr>
      | d \<Rightarrow> c)"
  by (cases "data c") (simp_all add: fill_num_col_def fill_cat_col_def fill_dt_col_def)

lemma fill_missing_eq:
  "fill_missing df =
     (if list_ex (\<lambda>c. data c = BoolCol []) df then Inl KeyError
      else Inr (map (\<lambda>c. fill_dt_col (fill_cat_col (fill_num_col c))) df))"
  by (simp add: fill_missing_def fill_bool_loop_eq list_ex_iff)

lemma before_fill_Inr:
  "before_fill ps df = Inr m \<longleftrightarrow>
     (\<exists>df2. infer_types ps (drop_duplicates df) = Inr df2 \<and> m = convert_dates ps df2)"
  by (auto simp: before_fill_def split: sum.splits)

lemma clean_data_Inr:
  "clean_data ps df = Inr out \<longleftrightarrow>
     (\<exists>m. before_fill ps df = Inr m \<and> \<not> list_ex (\<lambda>c. data c = BoolCol []) m \<and>
          out = map (\<lambda>c. fill_dt_col (fill_cat_col (fill_num_col c))) m)"
  by (auto simp: clean_data_def fill_missing_eq split: sum.splits)

subsection \<open>Rows and shape through the stages\<close>

lemma nrows_map_len:
  assumes "\<And>c. col_len (f c) = col_len c"
  shows "nrows (map f df) = nrows df"
  using assms by (cases df) (simp_all add: nrows_def)

lemma wf_map_len:
  assumes "\<And>c. col_len (f c) = col_len c" and "wf_df df"
  shows "wf_df (map f df)"
  using assms(2) nrows_map_len [of f df, OF assms(1)] by (simp add: wf_df_def list_all_iff assms(1))

lemma fill_col_len:
  "col_len (fill_dt_col (fill_cat_col (fill_num_col c))) = col_len c"
  by (simp add: fill_dt_col_len fill_cat_col_len fill_num_col_len)

lemma infer_types_shape:
  assumes "infer_types ps df = Inr df2"
  shows "length df2 = length df" and "nrows df2 = nrows df" and "wf_df df \<Longrightarrow> wf_df df2"
proof -
  have l2: "list_all2 (\<lambda>c c'. infer_col ps (nrows df) c = Inr c') df df2"
    using assms by (simp add: infer_types_def infer_loop_Inr)
  then show len: "length df2 = length df"
    by (simp add: list_all2_lengthD)
  have cl: "col_len (df2 ! i) = col_len (df ! i)" if "i < length df" for i
    using list_all2_nthD [OF l2 that] by (rule infer_col_len)
  show nr: "nrows df2 = nrows df"
  proof (cases df)
    case Nil
    then show ?thesis using len by (simp add: nrows_def)
  next
    case (Cons c cs)
    then obtain c' cs' where "df2 = c' # cs'" using len by (cases df2) auto
    then show ?thesis using Cons cl [of 0] by (simp add: nrows_def)
  qed
  show "wf_df df2" if "wf_df df"
    unfolding wf_df_def list_all_length
  proof (intro allI impI)
    fix i assume "i < length df2"
    then have i: "i < length df" using len by simp
    then have "col_len (df ! i) = nrows df"
      using that by (simp add: wf_df_def list_all_length)
    then show "col_len (df2 ! i) = nrows df2"
      using cl [OF i] nr by simp
  qed
qed

lemma convert_dates_shape:
  "length (convert_dates ps df) = length df"
  "nrows (convert_dates ps df) = nrows df"
  "wf_df df \<Longrightarrow> wf_df (convert_dates ps df)"
  by (simp_all add: convert_dates_def nrows_map_len date_col_len wf_map_len)

lemma before_fill_shape:
  assumes "before_fill ps df = Inr m"
  shows "length m = length df" and "nrows m = nrows (drop_duplicates df)" and "wf_df m"
proof -
  obtain df2 where df2: "infer_types ps (drop_duplicates df) = Inr df2"
    and m: "m = convert_dates ps df2"
    using assms by (auto simp: before_fill_Inr)
  show "length m = length df"
    using infer_types_shape(1) [OF df2]
    by (simp add: m convert_dates_shape drop_duplicates_def take_rows_def)
  show "nrows m = nrows (drop_duplicates df)"
    using infer_types_shape(2) [OF df2] by (simp add: m convert_dates_shape)
  show "wf_df m"
    using infer_types_shape(3) [OF df2] wf_take_rows
    by (simp add: m convert_dates_shape drop_duplicates_def)
qed

lemma clean_data_shape:
  assumes "clean_data ps df = Inr out"
  shows "length out = length df" and "nrows out = nrows (drop_duplicates df)" and "wf_df out"
proof -
  obtain m where m: "before_fill ps df = Inr m"
    and out: "out = map (\<lambda>c. fill_dt_col (fill_cat_col (fill_num_col c))) m"
    using assms by (auto simp: clean_data_Inr)
  show "length out = length df"
    using before_fill_shape(1) [OF m] by (simp add: out)
  show "nrows out = nrows (drop_duplicates df)"
    using before_fill_shape(2) [OF m] by (simp add: out nrows_map_len fill_col_len)
  show "wf_df out"
    unfolding out by (rule wf_map_len [OF fill_col_len before_fill_shape(3) [OF m]])
qed

subsection \<open>Tables without rows, and rows after deduplication\<close>

lemma infer_loop_zero_rows:
  "list_ex (\<lambda>c. dtype c = Object) cs \<Longrightarrow> infer_loop ps 0 cs = Inl ZeroDivisionError"
proof (induction cs)
  case Nil
  then show ?case by simp
next
  case (Cons c cs)
  show ?case
  proof (cases "data c")
    case (ObjectCol xs)
    then show ?thesis by (simp add: infer_col_def truediv_def)
  qed (use Cons in \<open>simp_all add: infer_col_def dtype_def\<close>)
qed

lemma dtype_take_rows: "list_ex (\<lambda>c. dtype c = t) (take_rows idx df) = list_ex (\<lambda>c. dtype c = t) df"
  by (simp add: take_rows_def list_ex_iff dtype_def dtype_of_iloc)

text \<open>
  Claim C1 says that a table without rows is normalised without error. The code divides
  the number of distinct values by the number of rows for every \<^verbatim>\<open>object\<close> column,
  with no guard: on a table without rows that has such a column (a CSV file with only its
  header line), \<^verbatim>\<open>clean_data\<close> raises ZeroDivisionError.
\<close>

theorem empty_table_object_column_raises:
  assumes "nrows df = 0" and "list_ex (\<lambda>c. dtype c = Object) df"
  shows "clean_data ps df = Inl ZeroDivisionError"
proof -
  have ne: "df \<noteq> []" using assms(2) by auto
  have k: "kept_rows df = []" using assms(1) by (simp add: kept_rows_def)
  have n: "nrows (drop_duplicates df) = 0"
    using nrows_take_rows [OF ne, of "[]"] by (simp add: drop_duplicates_def k)
  have "list_ex (\<lambda>c. dtype c = Object) (drop_duplicates df)"
    using assms(2) by (simp add: drop_duplicates_def dtype_take_rows)
  then have "infer_types ps (drop_duplicates df) = Inl ZeroDivisionError"
    unfolding infer_types_def n by (rule infer_loop_zero_rows)
  then show ?thesis
    by (simp add: clean_data_def before_fill_def)
qed

theorem empty_table_object_column_raises_witness:
  "nrows [\<lparr>name = ''a'', data = ObjectCol []\<rparr>, \<lparr>name = ''b'', data = ObjectCol []\<rparr>] = 0
   \<and> list_ex (\<lambda>c. dtype c = Object)
        [\<lparr>name = ''a'', data = ObjectCol []\<rparr>, \<lparr>name = ''b'', data = ObjectCol []\<rparr>]
   \<and> clean_data toy_parsers
        [\<lparr>name = ''a'', data = ObjectCol []\<rparr>, \<lparr>name = ''b'', data = ObjectCol []\<rparr>]
      = Inl ZeroDivisionError"
proof -
  let ?df = "[\<lparr>name = ''a'', data = ObjectCol []\<rparr>, \<lparr>name = ''b'', data = ObjectCol []\<rparr>]"
  have h1: "nrows ?df = 0" by code_simp
  have h2: "list_ex (\<lambda>c. dtype c = Object) ?df" by code_simp
  show ?thesis
    using h1 h2 empty_table_object_column_raises [OF h1 h2, of toy_parsers] by simp
qed

text \<open>
  Claim C2, as amended: no two rows are equal in the table that the deduplication step
  produces, and the later steps keep the number of rows. The claim as stated, that no
  two rows of the output are equal, fails: the example after the theorem shows it.
\<close>

theorem deduplication_step_only:
  assumes "wf_df df"
  shows "distinct (rows_of (drop_duplicates df)) \<and>
         (\<forall>out. clean_data ps df = Inr out \<longrightarrow>
            length (rows_of out) = length (rows_of (drop_duplicates df)))"
  using distinct_rows_drop_duplicates [OF assms] clean_data_shape(2) [of ps df]
  by (simp add: rows_of_def)

theorem deduplication_step_only_witness:
  "wf_df [\<lparr>name = ''x'', data = Float64Col [Some (Fin 2), None, Some (Fin 2)]\<rparr>]
   \<and> distinct (rows_of (drop_duplicates
        [\<lparr>name = ''x'', data = Float64Col [Some (Fin 2), None, Some (Fin 2)]\<rparr>]))
   \<and> rows_of (drop_duplicates
        [\<lparr>name = ''x'', data = Float64Col [Some (Fin 2), None, Some (Fin 2)]\<rparr>])
      = [[FloatV (Fin 2)], [NA]]"
proof -
  let ?df = "[\<lparr>name = ''x'', data = Float64Col [Some (Fin 2), None, Some (Fin 2)]\<rparr>]"
  have h: "wf_df ?df" by code_simp
  have r: "rows_of (drop_duplicates ?df) = [[FloatV (Fin 2)], [NA]]" by code_simp
  show ?thesis
    using h r deduplication_step_only [OF h, of toy_parsers] by simp
qed

text \<open>
  Filling a missing number with the median can make two rows equal, and nothing removes
  them afterwards: the column \<open>[2, NaN]\<close> becomes \<open>[2, 2]\<close>.
\<close>

theorem imputation_reintroduces_duplicates:
  "clean_data toy_parsers [\<lparr>name = ''x'', data = Float64Col [Some (Fin 2), None]\<rparr>]
     = Inr [\<lparr>name = ''x'', data = Float64Col [Some (Fin 2), Some (Fin 2)]\<rparr>]
   \<and> rows_of [\<lparr>name = ''x'', data = Float64Col [Some (Fin 2), Some (Fin 2)]\<rparr>]
     = [[FloatV (Fin 2)], [FloatV (Fin 2)]]
   \<and> \<not> distinct (rows_of [\<lparr>name = ''x'', data = Float64Col [Some (Fin 2), Some (Fin 2)]\<rparr>])"
  by code_simp

subsection \<open>Filling\<close>

lemma dropna_all_missing: "list_all (\<lambda>x. x = None) xs \<Longrightarrow> dropna xs = []"
  by (simp add: dropna_def list_all_iff filter_empty_conv)

lemma fillna_None: "fillna None xs = xs"
  by (simp add: fillna_def map_idI split: option.splits)

lemma median_all_missing: "list_all (\<lambda>x. x = None) xs \<Longrightarrow> median xs = None"
  by (simp add: median_def dropna_all_missing)

lemma ts_min_all_missing: "list_all (\<lambda>x. x = None) xs \<Longrightarrow> ts_min xs = None"
  by (simp add: ts_min_def dropna_all_missing)

lemma cells_all_NA_Float64:
  "list_all (\<lambda>v. v = NA) (cells_of (Float64Col xs)) \<longleftrightarrow> list_all (\<lambda>x. x = None) xs"
  by (auto simp: list_all_iff split: option.splits)

lemma cells_all_NA_Datetime:
  "list_all (\<lambda>v. v = NA) (cells_of (DatetimeCol xs)) \<longleftrightarrow> list_all (\<lambda>x. x = None) xs"
  by (auto simp: list_all_iff split: option.splits)

lemma no_empty_bool_column:
  assumes "wf_df df" and "nrows df \<noteq> 0"
  shows "\<not> list_ex (\<lambda>c. data c = BoolCol []) df"
proof
  assume "list_ex (\<lambda>c. data c = BoolCol []) df"
  then obtain c where c: "c \<in> set df" "data c = BoolCol []"
    by (auto simp: list_ex_iff)
  then have "col_len c = 0" by (simp add: col_len_def cells_def)
  then show False using wf_col_len [OF assms(1) c(1)] assms(2) by simp
qed

text \<open>
  Claim C4 says that the missing cells of a Categorical column become the text
  \<^verbatim>\<open>Unknown\<close>. The code converts the column with \<^verbatim>\<open>astype(str)\<close> before it calls
  \<^verbatim>\<open>fillna("Unknown")\<close>; the conversion has already turned every missing marker into the
  text \<^verbatim>\<open>nan\<close>, so \<^verbatim>\<open>fillna\<close> finds nothing to fill. The first part is the general
  fact about the filling step, the second the whole function on a table with the columns
  \<open>id = [1, 2, 3, 4]\<close> and \<open>c = [a, a, a, missing]\<close>.
\<close>

theorem missing_category_becomes_nan_text:
  "fill_cat_col \<lparr>name = n, data = CategoryCol xs\<rparr>
     = \<lparr>name = n, data = CategoryCol (map (\<lambda>x. case x of None \<Rightarrow> Some ''nan'' | Some s \<Rightarrow> Some s) xs)\<rparr>
   \<and> clean_data toy_parsers
       [\<lparr>name = ''id'', data = Int64Col [1, 2, 3, 4]\<rparr>,
        \<lparr>name = ''c'', data = ObjectCol [Some ''a'', Some ''a'', Some ''a'', None]\<rparr>]
     = Inr [\<lparr>name = ''id'', data = Int64Col [1, 2, 3, 4]\<rparr>,
            \<lparr>name = ''c'', data = CategoryCol [Some ''a'', Some ''a'', Some ''a'', Some ''nan'']\<rparr>]"
proof
  have "fillna (Some ''Unknown'') (astype_str xs)
          = map (\<lambda>x. case x of None \<Rightarrow> Some ''nan'' | Some s \<Rightarrow> Some s) xs"
    by (simp add: fillna_def astype_str_def split: option.splits)
  then show "fill_cat_col \<lparr>name = n, data = CategoryCol xs\<rparr>
     = \<lparr>name = n, data = CategoryCol (map (\<lambda>x. case x of None \<Rightarrow> Some ''nan'' | Some s \<Rightarrow> Some s) xs)\<rparr>"
    by (simp add: fill_cat_col_def)
next
  show "clean_data toy_parsers
       [\<lparr>name = ''id'', data = Int64Col [1, 2, 3, 4]\<rparr>,
        \<lparr>name = ''c'', data = ObjectCol [Some ''a'', Some ''a'', Some ''a'', None]\<rparr>]
     = Inr [\<lparr>name = ''id'', data = Int64Col [1, 2, 3, 4]\<rparr>,
            \<lparr>name = ''c'', data = CategoryCol [Some ''a'', Some ''a'', Some ''a'', Some ''nan'']\<rparr>]"
    by code_simp
qed

text \<open>
  Claim C5, as amended: in a table with at least one row, a \<^verbatim>\<open>float64\<close> or datetime
  column without any value before the filling step does not make normalisation fail. Its
  median or minimum is itself missing, filling with it changes nothing, and the column
  comes out entirely missing. The code has no ImputationError.
\<close>

theorem all_missing_column_stays_missing:
  assumes "before_fill ps df = Inr m" and "i < length m"
    and "dtype (m ! i) = Float64 \<or> dtype (m ! i) = Datetime"
    and "cells (m ! i) \<noteq> []" and "list_all (\<lambda>v. v = NA) (cells (m ! i))"
  shows "\<exists>out. clean_data ps df = Inr out \<and> out ! i = m ! i"
proof -
  have wf: "wf_df m" by (rule before_fill_shape(3) [OF assms(1)])
  have "m ! i \<in> set m" using assms(2) by simp
  then have "col_len (m ! i) = nrows m" by (rule wf_col_len [OF wf])
  moreover have "col_len (m ! i) \<noteq> 0" using assms(4) by (simp add: col_len_def)
  ultimately have "nrows m \<noteq> 0" by simp
  then have nb: "\<not> list_ex (\<lambda>c. data c = BoolCol []) m"
    by (rule no_empty_bool_column [OF wf])
  have same: "fill_dt_col (fill_cat_col (fill_num_col (m ! i))) = m ! i"
  proof (cases "data (m ! i)")
    case (Float64Col xs)
    then have "list_all (\<lambda>x. x = None) xs"
      using assms(5) cells_all_NA_Float64 [of xs] by (simp add: cells_def)
    then have "fillna (median xs) xs = xs"
      by (simp add: median_all_missing fillna_None)
    then show ?thesis using Float64Col by (simp add: fill_col_cases)
  next
    case (DatetimeCol xs)
    then have "list_all (\<lambda>x. x = None) xs"
      using assms(5) cells_all_NA_Datetime [of xs] by (simp add: cells_def)
    then have "fillna (ts_min xs) xs = xs"
      by (simp add: ts_min_all_missing fillna_None)
    then show ?thesis using DatetimeCol by (simp add: fill_col_cases)
  qed (use assms(3) in \<open>simp_all add: dtype_def\<close>)
  have "clean_data ps df = Inr (map (\<lambda>c. fill_dt_col (fill_cat_col (fill_num_col c))) m)"
    using assms(1) nb by (simp add: clean_data_Inr)
  then show ?thesis using assms(2) same by simp
qed

theorem all_missing_column_stays_missing_witness:
  "before_fill toy_parsers
       [\<lparr>name = ''x'', data = Float64Col [None, None]\<rparr>,
        \<lparr>name = ''id'', data = Int64Col [1, 2]\<rparr>]
     = Inr [\<lparr>name = ''x'', data = Float64Col [None, None]\<rparr>,
            \<lparr>name = ''id'', data = Int64Col [1, 2]\<rparr>]
   \<and> (\<exists>out. clean_data toy_parsers
          [\<lparr>name = ''x'', data = Float64Col [None, None]\<rparr>,
           \<lparr>name = ''id'', data = Int64Col [1, 2]\<rparr>] = Inr out
        \<and> out ! 0 = \<lparr>name = ''x'', data = Float64Col [None, None]\<rparr>)"
proof -
  let ?df = "[\<lparr>name = ''x'', data = Float64Col [None, None]\<rparr>,
              \<lparr>name = ''id'', data = Int64Col [1, 2]\<rparr>]"
  have h1: "before_fill toy_parsers ?df = Inr ?df" by code_simp
  have h2: "0 < length ?df" by simp
  have h3: "dtype (?df ! 0) = Float64 \<or> dtype (?df ! 0) = Datetime" by code_simp
  have h4: "cells (?df ! 0) \<noteq> []" by code_simp
  have h5: "list_all (\<lambda>v. v = NA) (cells (?df ! 0))" by code_simp
  show ?thesis
    using h1 all_missing_column_stays_missing [OF h1 h2 h3 h4 h5] by simp
qed

text \<open>
  A \<^verbatim>\<open>float64\<close> column that is entirely missing is returned as it is, with no error.
\<close>

theorem all_missing_column_no_error:
  "clean_data toy_parsers [\<lparr>name = ''x'', data = Float64Col [None]\<rparr>]
     = Inr [\<lparr>name = ''x'', data = Float64Col [None]\<rparr>]"
  by code_simp

text \<open>
  Claim C10: whatever the reader or \<^verbatim>\<open>clean_data\<close> raises, \<^verbatim>\<open>load_data\<close> returns
  \<^verbatim>\<open>None\<close> and reports one message that starts with \<^verbatim>\<open>Error loading file: \<close>, the
  same way for a failure of either stage; a table is returned only when both succeed.
\<close>

theorem load_data_reports_every_failure:
  assumes "r = (if endswith (filename f) ''.csv'' then read_csv rd f else read_excel rd f)"
  shows "(r = Inl e \<or> (\<exists>df. r = Inr df \<and> clean_data ps df = Inl e) \<longrightarrow>
            load_data ps rd (Some f) = (None, [''Error loading file: '' @ str_of_error e]))
       \<and> (fst (load_data ps rd (Some f)) \<noteq> None \<longrightarrow>
            (\<exists>df out. r = Inr df \<and> clean_data ps df = Inr out
               \<and> load_data ps rd (Some f) = (Some out, [])))"
  using assms by (auto simp: load_data_def split: sum.splits)

theorem load_data_reports_every_failure_witness:
  "load_data toy_parsers
     \<lparr>read_csv = (\<lambda>u. Inr [\<lparr>name = ''a'', data = ObjectCol []\<rparr>]),
      read_excel = (\<lambda>u. Inl (ReadError ''not a workbook''))\<rparr>
     (Some \<lparr>filename = ''data.csv'', content = ''a''\<rparr>)
   = (None, [''Error loading file: division by zero''])
   \<and> load_data toy_parsers
     \<lparr>read_csv = (\<lambda>u. Inr [\<lparr>name = ''a'', data = ObjectCol []\<rparr>]),
      read_excel = (\<lambda>u. Inl (ReadError ''not a workbook''))\<rparr>
     (Some \<lparr>filename = ''data.txt'', content = ''a''\<rparr>)
   = (None, [''Error loading file: not a workbook''])"
proof -
  let ?rd = "\<lparr>read_csv = (\<lambda>u. Inr [\<lparr>name = ''a'', data = ObjectCol []\<rparr>]),
      read_excel = (\<lambda>u. Inl (ReadError ''not a workbook''))\<rparr> :: string readers"
  let ?f = "\<lparr>filename = ''data.csv'', content = ''a''\<rparr>"
  let ?g = "\<lparr>filename = ''data.txt'', content = ''a''\<rparr>"
  have c: "clean_data toy_parsers [\<lparr>name = ''a'', data = ObjectCol []\<rparr>] = Inl ZeroDivisionError"
    by code_simp
  have f: "(if endswith (filename ?f) ''.csv'' then read_csv ?rd ?f else read_excel ?rd ?f)
             = Inr [\<lparr>name = ''a'', data = ObjectCol []\<rparr>]"
    by (simp add: endswith_def)
  have g: "(if endswith (filename ?g) ''.csv'' then read_csv ?rd ?g else read_excel ?rd ?g)
             = Inl (ReadError ''not a workbook'')"
    by (simp add: endswith_def)
  show ?thesis
    using c load_data_reports_every_failure [OF f [symmetric], of ZeroDivisionError toy_parsers]
      load_data_reports_every_failure [OF g [symmetric], of "ReadError ''not a workbook''" toy_parsers]
    by simp
qed

subsection \<open>The median and the minimum of a column with a value\<close>

lemma fl_add_None: "fl_add a b = None \<longleftrightarrow> (a = PInf \<and> b = NInf) \<or> (a = NInf \<and> b = PInf)"
  by (cases a; cases b) auto

lemma fl_mean_None: "fl_mean a b = None \<longleftrightarrow> (a = PInf \<and> b = NInf) \<or> (a = NInf \<and> b = PInf)"
proof -
  have "fl_mean a b = None \<longleftrightarrow> fl_add a b = None"
    by (simp add: fl_mean_def split: option.splits)
  then show ?thesis by (simp only: fl_add_None)
qed

lemma count_list_rep: "count_list (replicate n a) b = (if a = b then n else 0)"
  by (induction n) auto

lemma set_dropna: "set (dropna xs) = {v. Some v \<in> set xs}"
  by (force simp: dropna_def image_iff)

lemma le_NInf: "x \<le> NInf \<longleftrightarrow> x = NInf"
  by (cases x) simp_all

lemma PInf_le: "PInf \<le> x \<longleftrightarrow> x = PInf"
  by (cases x) simp_all

lemma median_None_sorted:
  assumes "sorted s" and "s \<noteq> []" and "even (length s)"
    and "fl_mean (s ! (length s div 2 - 1)) (s ! (length s div 2)) = None"
  shows "s = replicate (length s div 2) NInf @ replicate (length s div 2) PInf"
proof -
  define h where "h = length s div 2"
  have n: "length s = h + h" using assms(3) by (auto simp: h_def elim: evenE)
  have hpos: "0 < h" using assms(2) n by (cases h) auto
  have le: "s ! (h - 1) \<le> s ! h"
    using sorted_nth_mono [OF assms(1), of "h - 1" h] hpos n by simp
  have mid: "s ! (h - 1) = NInf \<and> s ! h = PInf"
    using assms(4) le by (auto simp: fl_mean_None h_def [symmetric])
  have low: "s ! j = NInf" if "j < h" for j
  proof -
    have "s ! j \<le> s ! (h - 1)"
      using sorted_nth_mono [OF assms(1), of j "h - 1"] that n by simp
    then show ?thesis using mid by (simp add: le_NInf)
  qed
  have high: "s ! j = PInf" if "h \<le> j" and "j < h + h" for j
  proof -
    have "s ! h \<le> s ! j"
      using sorted_nth_mono [OF assms(1), of h j] that n by simp
    then show ?thesis using mid by (simp add: PInf_le)
  qed
  have "s = replicate h NInf @ replicate h PInf"
  proof (rule nth_equalityI)
    show "length s = length (replicate h NInf @ replicate h PInf)" using n by simp
  next
    fix j assume "j < length s"
    then have j: "j < h + h" using n by simp
    show "s ! j = (replicate h NInf @ replicate h PInf) ! j"
    proof (cases "j < h")
      case True
      then show ?thesis using low by (simp add: nth_append)
    next
      case False
      then show ?thesis using high [of j] j by (simp add: nth_append)
    qed
  qed
  then show ?thesis by (simp add: h_def)
qed

lemma median_None_values:
  assumes "median xs = None" and "dropna xs \<noteq> []"
  shows "(\<forall>r. Fin r \<notin> set (dropna xs))
       \<and> count_list (dropna xs) PInf = count_list (dropna xs) NInf"
proof -
  define s where "s = sort (dropna xs)"
  have ne: "s \<noteq> []" using assms(2) by (auto simp: s_def dest: arg_cong [where f = length])
  have srt: "sorted s" by (simp add: s_def)
  have ev: "even (length s)"
    using assms(1) ne by (auto simp: median_def s_def [symmetric] Let_def split: if_splits)
  have "fl_mean (s ! (length s div 2 - 1)) (s ! (length s div 2)) = None"
    using assms(1) ne ev by (auto simp: median_def s_def [symmetric] Let_def split: if_splits)
  then have rep: "s = replicate (length s div 2) NInf @ replicate (length s div 2) PInf"
    by (rule median_None_sorted [OF srt ne ev])
  have ms: "mset s = mset (dropna xs)" by (simp add: s_def)
  have cnt: "count_list (dropna xs) v = count_list s v" for v
    using ms by (metis count_mset)
  have st: "set (dropna xs) = set s" by (simp add: s_def)
  have "Fin r \<notin> set s" for r
  proof
    assume "Fin r \<in> set s"
    then have "Fin r \<in> set (replicate (length s div 2) NInf @ replicate (length s div 2) PInf)"
      using rep by simp
    then show False by (auto split: if_splits)
  qed
  moreover have "count_list s PInf = count_list s NInf"
  proof -
    have "count_list (replicate (length s div 2) NInf @ replicate (length s div 2) PInf) PInf
        = count_list (replicate (length s div 2) NInf @ replicate (length s div 2) PInf) NInf"
      by (simp add: count_list_rep)
    then show ?thesis using rep by simp
  qed
  ultimately show ?thesis by (simp add: cnt st)
qed

lemma count_list_dropna: "count_list (dropna xs) v = count_list xs (Some v)"
  by (induction xs) (auto simp: dropna_def)

lemma count_list_float_cells:
  "count_list (cells_of (Float64Col xs)) (FloatV v) = count_list xs (Some v)"
  by (induction xs) (auto split: option.splits)

lemma finite_cell_float_cells:
  "list_ex finite_cell (cells_of (Float64Col xs)) \<longleftrightarrow> (\<exists>r. Some (Fin r) \<in> set xs)"
proof
  assume "list_ex finite_cell (cells_of (Float64Col xs))"
  then obtain x where x: "x \<in> set xs" "finite_cell (case x of None \<Rightarrow> NA | Some v \<Rightarrow> FloatV v)"
    by (auto simp: list_ex_iff)
  have "\<exists>r. x = Some (Fin r)"
  proof (cases x)
    case None
    then show ?thesis using x(2) by simp
  next
    case (Some v)
    then show ?thesis using x(2) by (cases v) simp_all
  qed
  then show "\<exists>r. Some (Fin r) \<in> set xs" using x(1) by auto
next
  assume "\<exists>r. Some (Fin r) \<in> set xs"
  then obtain r where "Some (Fin r) \<in> set xs" by blast
  then have "FloatV (Fin r) \<in> set (cells_of (Float64Col xs))" by force
  then show "list_ex finite_cell (cells_of (Float64Col xs))"
    unfolding list_ex_iff by (rule bexI [rotated]) simp
qed

lemma value_cell_Float64:
  "list_ex (\<lambda>v. v \<noteq> NA) (cells_of (Float64Col xs)) \<Longrightarrow> dropna xs \<noteq> []"
proof -
  assume "list_ex (\<lambda>v. v \<noteq> NA) (cells_of (Float64Col xs))"
  then obtain v where "Some v \<in> set xs" by (auto simp: list_ex_iff split: option.splits)
  then have "v \<in> set (dropna xs)" by (simp add: set_dropna)
  then show ?thesis by auto
qed

lemma median_Some:
  assumes "list_ex (\<lambda>v. v \<noteq> NA) (cells c)" and "\<not> balanced_infinities c"
    and "data c = Float64Col xs"
  shows "median xs \<noteq> None"
proof
  assume m: "median xs = None"
  have ne: "dropna xs \<noteq> []"
    using assms(1,3) value_cell_Float64 by (simp add: cells_def)
  have v: "(\<forall>r. Fin r \<notin> set (dropna xs))
       \<and> count_list (dropna xs) PInf = count_list (dropna xs) NInf"
    by (rule median_None_values [OF m ne])
  then have "\<not> (\<exists>r. Some (Fin r) \<in> set xs)"
    by (simp add: set_dropna)
  then have "\<not> list_ex finite_cell (cells_of (Float64Col xs))"
    using finite_cell_float_cells [of xs] by blast
  then have "\<not> list_ex finite_cell (cells c)"
    unfolding cells_def assms(3) .
  moreover have "count_list (cells_of (Float64Col xs)) (FloatV PInf)
      = count_list (cells_of (Float64Col xs)) (FloatV NInf)"
    using v by (simp only: count_list_float_cells count_list_dropna)
  then have "count_list (cells c) (FloatV PInf) = count_list (cells c) (FloatV NInf)"
    unfolding cells_def assms(3) .
  ultimately show False using assms(2) by (simp add: balanced_infinities_def)
qed

lemma ts_min_Some:
  assumes "Some t \<in> set xs"
  shows "ts_min xs \<noteq> None"
proof -
  have "dropna xs \<noteq> []" using assms set_dropna [of xs] by auto
  then show ?thesis by (simp add: ts_min_def split: list.splits)
qed

lemma fillna_Some_no_None: "None \<notin> set (fillna (Some v) xs)"
  by (auto simp: fillna_def split: option.splits)

lemma NA_cells_Float64: "NA \<in> set (cells_of (Float64Col xs)) \<longleftrightarrow> None \<in> set xs"
  by (auto simp: image_iff split: option.splits)

lemma NA_cells_Datetime: "NA \<in> set (cells_of (DatetimeCol xs)) \<longleftrightarrow> None \<in> set xs"
  by (auto simp: image_iff split: option.splits)

lemma NA_cells_Category: "NA \<in> set (cells_of (CategoryCol xs)) \<longleftrightarrow> None \<in> set xs"
  by (auto simp: image_iff split: option.splits)

lemma value_cell_Datetime:
  "list_ex (\<lambda>v. v \<noteq> NA) (cells_of (DatetimeCol xs)) \<Longrightarrow> \<exists>t. Some t \<in> set xs"
  by (auto simp: list_ex_iff split: option.splits)

text \<open>
  Claim C8, as amended: a column whose storage is \<^verbatim>\<open>int64\<close>, \<^verbatim>\<open>float64\<close>,
  \<^verbatim>\<open>category\<close>, \<^verbatim>\<open>bool\<close> or datetime without time zone when the filling step starts,
  and which has at least one value there, has no missing marker in the output, unless it
  is a \<^verbatim>\<open>float64\<close> column without a finite number in which \<open>+inf\<close> and \<open>-inf\<close> occur
  equally often. The missing cells of a \<^verbatim>\<open>float64\<close> column hold the median of its
  values.
\<close>

theorem no_missing_after_fill:
  assumes "before_fill ps df = Inr m" and "clean_data ps df = Inr out" and "i < length m"
    and "dtype (m ! i) \<in> {Int64, Float64, Category, Bool, Datetime}"
    and "list_ex (\<lambda>v. v \<noteq> NA) (cells (m ! i))"
    and "dtype (m ! i) = Float64 \<longrightarrow> \<not> balanced_infinities (m ! i)"
  shows "NA \<notin> set (cells (out ! i)) \<and>
         (\<forall>xs. data (m ! i) = Float64Col xs \<longrightarrow>
            data (out ! i)
              = Float64Col (map (\<lambda>x. case x of None \<Rightarrow> median xs | Some v \<Rightarrow> Some v) xs))"
proof -
  have out: "out ! i = fill_dt_col (fill_cat_col (fill_num_col (m ! i)))"
    using assms(1,2,3) by (auto simp: clean_data_Inr)
  show ?thesis
  proof (cases "data (m ! i)")
    case (ObjectCol xs)
    then show ?thesis using assms(4) by (simp add: dtype_def)
  next
    case (DatetimeTZCol z xs)
    then show ?thesis using assms(4) by (simp add: dtype_def)
  next
    case (BoolCol xs)
    then show ?thesis by (auto simp: out fill_col_cases cells_def)
  next
    case (Int64Col xs)
    then show ?thesis by (auto simp: out fill_col_cases cells_def)
  next
    case (Float64Col xs)
    then have "\<not> balanced_infinities (m ! i)"
      using assms(6) by (simp add: dtype_def)
    then obtain v where v: "median xs = Some v"
      using median_Some [OF assms(5) _ Float64Col] by blast
    have d: "data (out ! i) = Float64Col (fillna (median xs) xs)"
      using Float64Col by (simp add: out fill_col_cases)
    have "NA \<notin> set (cells (out ! i))"
      unfolding cells_def d NA_cells_Float64 v by (rule fillna_Some_no_None)
    then show ?thesis using d Float64Col by (simp add: fillna_def)
  next
    case (DatetimeCol xs)
    then have "list_ex (\<lambda>v. v \<noteq> NA) (cells_of (DatetimeCol xs))"
      using assms(5) by (simp add: cells_def)
    then obtain t where "Some t \<in> set xs"
      using value_cell_Datetime by blast
    then obtain v where v: "ts_min xs = Some v"
      using ts_min_Some by blast
    have d: "data (out ! i) = DatetimeCol (fillna (ts_min xs) xs)"
      using DatetimeCol by (simp add: out fill_col_cases)
    have "NA \<notin> set (cells (out ! i))"
      unfolding cells_def d NA_cells_Datetime v by (rule fillna_Some_no_None)
    then show ?thesis using DatetimeCol by simp
  next
    case (CategoryCol xs)
    have d: "data (out ! i) = CategoryCol (fillna (Some ''Unknown'') (astype_str xs))"
      using CategoryCol by (simp add: out fill_col_cases)
    have "NA \<notin> set (cells (out ! i))"
      unfolding cells_def d NA_cells_Category by (rule fillna_Some_no_None)
    then show ?thesis using CategoryCol by simp
  qed
qed

theorem no_missing_after_fill_witness:
  "clean_data toy_parsers
     [\<lparr>name = ''x'', data = Float64Col [Some (Fin 1), Some (Fin 3), None, Some (Fin 7)]\<rparr>]
     = Inr [\<lparr>name = ''x'', data = Float64Col [Some (Fin 1), Some (Fin 3), Some (Fin 3), Some (Fin 7)]\<rparr>]
   \<and> median [Some (Fin 1), Some (Fin 3), None, Some (Fin 7)] = Some (Fin 3)
   \<and> NA \<notin> set (cells
       \<lparr>name = ''x'', data = Float64Col [Some (Fin 1), Some (Fin 3), Some (Fin 3), Some (Fin 7)]\<rparr>)
   \<and> clean_data toy_parsers [\<lparr>name = ''y'', data = Float64Col [Some PInf, None]\<rparr>]
     = Inr [\<lparr>name = ''y'', data = Float64Col [Some PInf, Some PInf]\<rparr>]
   \<and> NA \<notin> set (cells \<lparr>name = ''y'', data = Float64Col [Some PInf, Some PInf]\<rparr>)"
proof -
  let ?df = "[\<lparr>name = ''x'', data = Float64Col [Some (Fin 1), Some (Fin 3), None, Some (Fin 7)]\<rparr>]"
  let ?out = "[\<lparr>name = ''x'', data = Float64Col [Some (Fin 1), Some (Fin 3), Some (Fin 3), Some (Fin 7)]\<rparr>]"
  let ?dg = "[\<lparr>name = ''y'', data = Float64Col [Some PInf, None]\<rparr>]"
  let ?og = "[\<lparr>name = ''y'', data = Float64Col [Some PInf, Some PInf]\<rparr>]"
  have h1: "before_fill toy_parsers ?df = Inr ?df" by code_simp
  have h2: "clean_data toy_parsers ?df = Inr ?out" by code_simp
  have h3: "0 < length ?df" by simp
  have h4: "dtype (?df ! 0) \<in> {Int64, Float64, Category, Bool, Datetime}" by code_simp
  have h5: "list_ex (\<lambda>v. v \<noteq> NA) (cells (?df ! 0))" by code_simp
  have h6: "dtype (?df ! 0) = Float64 \<longrightarrow> \<not> balanced_infinities (?df ! 0)" by code_simp
  have g1: "before_fill toy_parsers ?dg = Inr ?dg" by code_simp
  have g2: "clean_data toy_parsers ?dg = Inr ?og" by code_simp
  have g3: "0 < length ?dg" by simp
  have g4: "dtype (?dg ! 0) \<in> {Int64, Float64, Category, Bool, Datetime}" by code_simp
  have g5: "list_ex (\<lambda>v. v \<noteq> NA) (cells (?dg ! 0))" by code_simp
  have g6: "dtype (?dg ! 0) = Float64 \<longrightarrow> \<not> balanced_infinities (?dg ! 0)" by code_simp
  have m: "median [Some (Fin 1), Some (Fin 3), None, Some (Fin 7)] = Some (Fin 3)" by code_simp
  show ?thesis
    using h2 g2 m no_missing_after_fill [OF h1 h2 h3 h4 h5 h6]
      no_missing_after_fill [OF g1 g2 g3 g4 g5 g6] by simp
qed

text \<open>
  The claim as stated fails in two ways. The median of \<open>+inf\<close> and \<open>-inf\<close> is NaN, and
  filling with NaN leaves the missing cell missing. A date column whose texts carry a UTC
  offset becomes a datetime column with a time zone, which the filling step does not
  select, so its NaT stays.
\<close>

theorem missing_values_that_stay:
  "clean_data toy_parsers [\<lparr>name = ''x'', data = Float64Col [Some PInf, Some NInf, None]\<rparr>]
     = Inr [\<lparr>name = ''x'', data = Float64Col [Some PInf, Some NInf, None]\<rparr>]
   \<and> cells \<lparr>name = ''x'', data = Float64Col [Some PInf, Some NInf, None]\<rparr>
     = [FloatV PInf, FloatV NInf, NA]
   \<and> clean_data toy_parsers
       [\<lparr>name = ''created_time'', data = ObjectCol [Some ''2021-01-01T00:00:00Z'', Some ''n/a'']\<rparr>]
     = Inr [\<lparr>name = ''created_time'',
             data = DatetimeTZCol ''UTC'' [Some 1609459200000000000, None]\<rparr>]
   \<and> cells \<lparr>name = ''created_time'',
             data = DatetimeTZCol ''UTC'' [Some 1609459200000000000, None]\<rparr>
     = [Ts 1609459200000000000, NA]"
  by code_simp

text \<open>
  The median is computed in \<^verbatim>\<open>float64\<close>: the median of 0.1 and 0.2 is
  0.15000000000000002.
\<close>

lemma median_is_rounded:
  "median [Some (round64 (1 / 10)), None, Some (round64 (2 / 10))]
     = Some (Fin (1351079888211149 / 9007199254740992))"
  "round64 (15000000000000002 / 100000000000000000) = Fin (1351079888211149 / 9007199254740992)"
  by code_simp+

subsection \<open>Type inference\<close>

lemma nunique_card: "nunique xs = card (set xs - {None})"
proof -
  have "set (filter (\<lambda>x. x \<noteq> None) xs) = set xs - {None}" by auto
  then show ?thesis by (simp add: nunique_def length_remdups_card_conv)
qed

lemma card_text_cells:
  "card (case_option NA Str ` set xs - {NA}) = card (set xs - {None})"
proof -
  have inj: "inj_on (case_option NA Str) (set xs - {None})"
    by (auto simp: inj_on_def split: option.splits)
  have "case_option NA Str ` set xs - {NA} = case_option NA Str ` (set xs - {None})"
    by (auto split: option.splits)
  then show ?thesis using card_image [OF inj] by simp
qed

lemma unique_ratio_Object:
  "data c = ObjectCol xs \<Longrightarrow> unique_ratio c n = of_nat (nunique xs) / of_nat n"
  by (simp add: unique_ratio_def cells_def card_text_cells nunique_card)

lemma infer_col_Object:
  assumes "data c = ObjectCol xs"
  shows "infer_col ps n c =
           (if n = 0 then Inl ZeroDivisionError
            else if unique_ratio c n < 3 / 10 then Inr (c\<lparr>data := CategoryCol xs\<rparr>) else Inr c)"
  using assms by (simp add: infer_col_def truediv_def unique_ratio_Object)

lemma infer_col_Bool: "dtype c = Bool \<Longrightarrow> infer_col ps n c = Inr c"
  by (cases "data c") (simp_all add: infer_col_def dtype_def)

lemma infer_col_other:
  "dtype c \<noteq> Object \<Longrightarrow> dtype c \<noteq> Bool \<Longrightarrow> infer_col ps n c = Inr (c\<lparr>data := to_numeric ps (data c)\<rparr>)"
  by (cases "data c") (simp_all add: infer_col_def dtype_def)

lemma infer_col_total: "dtype c \<noteq> Object \<or> n \<noteq> 0 \<Longrightarrow> \<exists>c'. infer_col ps n c = Inr c'"
  by (cases "data c") (auto simp: infer_col_def dtype_def truediv_def)

lemma infer_col_Inl: "infer_col ps n c = Inl e \<Longrightarrow> e = ZeroDivisionError \<and> dtype c = Object \<and> n = 0"
  by (cases "data c") (auto simp: infer_col_def dtype_def truediv_def split: if_splits)

lemma infer_loop_total:
  "nrows_arg \<noteq> 0 \<or> \<not> list_ex (\<lambda>c. dtype c = Object) cs \<Longrightarrow> \<exists>cs'. infer_loop ps nrows_arg cs = Inr cs'"
proof (induction cs)
  case Nil
  show ?case by simp
next
  case (Cons c cs)
  then obtain cs' where "infer_loop ps nrows_arg cs = Inr cs'" by auto
  moreover obtain c' where "infer_col ps nrows_arg c = Inr c'"
    using Cons.prems infer_col_total [of c nrows_arg ps] by auto
  ultimately show ?case by simp
qed

lemma infer_types_succeeds:
  "(\<exists>df'. infer_types ps df = Inr df') \<longleftrightarrow> (nrows df \<noteq> 0 \<or> \<not> list_ex (\<lambda>c. dtype c = Object) df)"
proof
  assume "\<exists>df'. infer_types ps df = Inr df'"
  then have "infer_loop ps (nrows df) df \<noteq> Inl ZeroDivisionError"
    by (auto simp: infer_types_def)
  then show "nrows df \<noteq> 0 \<or> \<not> list_ex (\<lambda>c. dtype c = Object) df"
    using infer_loop_zero_rows [of df ps] by (cases "nrows df = 0") auto
next
  assume "nrows df \<noteq> 0 \<or> \<not> list_ex (\<lambda>c. dtype c = Object) df"
  then show "\<exists>df'. infer_types ps df = Inr df'"
    unfolding infer_types_def by (rule infer_loop_total)
qed

lemma dtype_to_numeric:
  "dtype_of d \<noteq> Bool \<Longrightarrow> dtype_of (to_numeric ps d) = Int64 \<or> dtype_of (to_numeric ps d) = Float64"
  by (cases d) (simp_all add: convert_numeric_def Let_def)

lemma convert_numeric_unparsed:
  assumes "j < length xs" and "xs ! j = Some s" and "str_to_num ps s = None"
  shows "cells_of (convert_numeric ps xs) ! j = NA"
proof -
  let ?ys = "map (\<lambda>x. case x of None \<Rightarrow> None | Some s \<Rightarrow> str_to_num ps s) xs"
  have yj: "?ys ! j = None" using assms by simp
  then have "\<not> is_intn (?ys ! j)" by simp
  then have "\<not> list_all is_intn ?ys"
    using assms(1) unfolding list_all_length by (metis length_map)
  then have "convert_numeric ps xs = Float64Col (map floatn ?ys)"
    by (simp add: convert_numeric_def)
  then show ?thesis using assms(1) yj by simp
qed

lemma to_numeric_unparsed:
  assumes "j < length (cells_of d)" and "cells_of d ! j = Str s" and "str_to_num ps s = None"
  shows "cells_of (to_numeric ps d) ! j = NA"
proof (cases d)
  case (ObjectCol xs)
  then have "xs ! j = Some s" using assms(1,2) by (auto split: option.splits)
  then show ?thesis using ObjectCol assms by (simp add: convert_numeric_unparsed)
next
  case (CategoryCol xs)
  then have "xs ! j = Some s" using assms(1,2) by (auto split: option.splits)
  then show ?thesis using CategoryCol assms by (simp add: convert_numeric_unparsed)
next
  case (Float64Col xs)
  then show ?thesis using assms(1,2) by (auto split: option.splits)
next
  case (DatetimeCol xs)
  then show ?thesis using assms(1,2) by (auto split: option.splits)
next
  case (DatetimeTZCol z xs)
  then show ?thesis using assms(1,2) by (auto split: option.splits)
qed (use assms in auto)

text \<open>
  Claim C6: the first loop handles each column in exactly one of three branches, chosen by
  its storage type in the order text, boolean, anything else. A text column becomes
  Categorical when its unique ratio is below 0.3 and is otherwise left as it is; a boolean
  column is left as it is; any other column goes through numeric coercion, which never
  raises and turns a text value that is not a number into the missing marker. The loop
  fails only in the text branch, on a table without rows.
\<close>

theorem type_inference_three_way:
  "((\<exists>df'. infer_types ps df = Inr df') \<longleftrightarrow>
      (nrows df \<noteq> 0 \<or> \<not> list_ex (\<lambda>c. dtype c = Object) df))
   \<and> (\<forall>df' i. infer_types ps df = Inr df' \<and> i < length df \<longrightarrow>
         length df' = length df \<and> name (df' ! i) = name (df ! i)
         \<and> (dtype (df ! i) = Object \<longrightarrow>
               cells (df' ! i) = cells (df ! i)
               \<and> dtype (df' ! i)
                   = (if unique_ratio (df ! i) (nrows df) < 3 / 10 then Category else Object))
         \<and> (dtype (df ! i) = Bool \<longrightarrow> df' ! i = df ! i)
         \<and> (dtype (df ! i) \<noteq> Object \<and> dtype (df ! i) \<noteq> Bool \<longrightarrow>
               data (df' ! i) = to_numeric ps (data (df ! i))
               \<and> (dtype (df' ! i) = Int64 \<or> dtype (df' ! i) = Float64)
               \<and> (\<forall>j s. j < col_len (df ! i) \<and> cells (df ! i) ! j = Str s
                           \<and> str_to_num ps s = None \<longrightarrow> cells (df' ! i) ! j = NA)))"
proof (intro conjI allI impI)
  show "(\<exists>df'. infer_types ps df = Inr df') \<longleftrightarrow>
      (nrows df \<noteq> 0 \<or> \<not> list_ex (\<lambda>c. dtype c = Object) df)"
    by (rule infer_types_succeeds)
next
  fix df' i
  assume a: "infer_types ps df = Inr df' \<and> i < length df"
  then have l2: "list_all2 (\<lambda>c c'. infer_col ps (nrows df) c = Inr c') df df'"
    by (simp add: infer_types_def infer_loop_Inr)
  have step: "infer_col ps (nrows df) (df ! i) = Inr (df' ! i)"
    using list_all2_nthD [OF l2] a by simp
  show "length df' = length df" using l2 by (simp add: list_all2_lengthD)
  show "name (df' ! i) = name (df ! i)" using step by (rule infer_col_name)
  {
    assume o: "dtype (df ! i) = Object"
    then obtain xs where xs: "data (df ! i) = ObjectCol xs"
      by (cases "data (df ! i)") (simp_all add: dtype_def)
    have n: "nrows df \<noteq> 0"
      using step by (auto simp: infer_col_Object [OF xs] split: if_splits)
    have d: "df' ! i = (if unique_ratio (df ! i) (nrows df) < 3 / 10
                        then (df ! i)\<lparr>data := CategoryCol xs\<rparr> else df ! i)"
      using step n by (auto simp: infer_col_Object [OF xs] split: if_splits)
    show "cells (df' ! i) = cells (df ! i)"
      by (simp add: d cells_def xs)
    show "dtype (df' ! i) = (if unique_ratio (df ! i) (nrows df) < 3 / 10 then Category else Object)"
      by (simp add: d dtype_def xs)
  }
  {
    assume "dtype (df ! i) = Bool"
    then show "df' ! i = df ! i" using step by (simp add: infer_col_Bool)
  }
  {
    assume n: "dtype (df ! i) \<noteq> Object \<and> dtype (df ! i) \<noteq> Bool"
    then have d: "df' ! i = (df ! i)\<lparr>data := to_numeric ps (data (df ! i))\<rparr>"
      using step by (simp add: infer_col_other)
    show "data (df' ! i) = to_numeric ps (data (df ! i))" by (simp add: d)
    show "dtype (df' ! i) = Int64 \<or> dtype (df' ! i) = Float64"
      using n dtype_to_numeric [of "data (df ! i)" ps] by (simp add: d dtype_def)
    fix j s
    assume "j < col_len (df ! i) \<and> cells (df ! i) ! j = Str s \<and> str_to_num ps s = None"
    then show "cells (df' ! i) ! j = NA"
      using to_numeric_unparsed [of j "data (df ! i)" s ps]
      by (simp add: d cells_def col_len_def)
  }
qed

theorem type_inference_three_way_witness:
  "infer_types toy_parsers
     [\<lparr>name = ''status'', data = ObjectCol [Some ''on'', Some ''on'', Some ''on'', Some ''on'']\<rparr>,
      \<lparr>name = ''id'', data = ObjectCol [Some ''a'', Some ''b'', Some ''c'', Some ''d'']\<rparr>,
      \<lparr>name = ''flag'', data = BoolCol [True, False, True, True]\<rparr>,
      \<lparr>name = ''n'', data = CategoryCol [Some ''1'', Some ''2.5'', Some ''x'', None]\<rparr>]
   = Inr
     [\<lparr>name = ''status'', data = CategoryCol [Some ''on'', Some ''on'', Some ''on'', Some ''on'']\<rparr>,
      \<lparr>name = ''id'', data = ObjectCol [Some ''a'', Some ''b'', Some ''c'', Some ''d'']\<rparr>,
      \<lparr>name = ''flag'', data = BoolCol [True, False, True, True]\<rparr>,
      \<lparr>name = ''n'', data = Float64Col [Some (Fin 1), Some (Fin (5 / 2)), None, None]\<rparr>]
   \<and> unique_ratio \<lparr>name = ''status'', data = ObjectCol [Some ''on'', Some ''on'', Some ''on'', Some ''on'']\<rparr> 4 < 3 / 10
   \<and> \<not> unique_ratio \<lparr>name = ''id'', data = ObjectCol [Some ''a'', Some ''b'', Some ''c'', Some ''d'']\<rparr> 4 < 3 / 10"
proof -
  let ?df = "[\<lparr>name = ''status'', data = ObjectCol [Some ''on'', Some ''on'', Some ''on'', Some ''on'']\<rparr>,
      \<lparr>name = ''id'', data = ObjectCol [Some ''a'', Some ''b'', Some ''c'', Some ''d'']\<rparr>,
      \<lparr>name = ''flag'', data = BoolCol [True, False, True, True]\<rparr>,
      \<lparr>name = ''n'', data = CategoryCol [Some ''1'', Some ''2.5'', Some ''x'', None]\<rparr>]"
  let ?out = "[\<lparr>name = ''status'', data = CategoryCol [Some ''on'', Some ''on'', Some ''on'', Some ''on'']\<rparr>,
      \<lparr>name = ''id'', data = ObjectCol [Some ''a'', Some ''b'', Some ''c'', Some ''d'']\<rparr>,
      \<lparr>name = ''flag'', data = BoolCol [True, False, True, True]\<rparr>,
      \<lparr>name = ''n'', data = Float64Col [Some (Fin 1), Some (Fin (5 / 2)), None, None]\<rparr>]"
  have e: "infer_types toy_parsers ?df = Inr ?out" by code_simp
  have n: "nrows ?df = 4" by code_simp
  have d0: "dtype (?df ! 0) = Object" and d1: "dtype (?df ! 1) = Object" by code_simp+
  have t0: "dtype (?out ! 0) = Category" and t1: "dtype (?out ! 1) = Object" by code_simp+
  from type_inference_three_way [of toy_parsers ?df]
  have "\<forall>df' i. infer_types toy_parsers ?df = Inr df' \<and> i < length ?df \<longrightarrow>
         (dtype (?df ! i) = Object \<longrightarrow>
            dtype (df' ! i) = (if unique_ratio (?df ! i) (nrows ?df) < 3 / 10 then Category else Object))"
    by blast
  then have r: "\<And>i. i < length ?df \<Longrightarrow> dtype (?df ! i) = Object \<Longrightarrow>
      dtype (?out ! i) = (if unique_ratio (?df ! i) (nrows ?df) < 3 / 10 then Category else Object)"
    using e by blast
  have r0: "unique_ratio (?df ! 0) 4 < 3 / 10"
    using r [of 0] d0 t0 unfolding n by (auto split: if_splits)
  have r1: "\<not> unique_ratio (?df ! 1) 4 < 3 / 10"
    using r [of 1] d1 t1 unfolding n by (auto split: if_splits)
  show ?thesis using e r0 r1 by simp
qed

subsection \<open>Date and time columns\<close>

lemma starts_with_iff: "starts_with k s \<longleftrightarrow> (\<exists>q. s = k @ q)"
  by (induction k s rule: starts_with.induct) auto

lemma contains_iff: "contains k s \<longleftrightarrow> (\<exists>p q. s = p @ k @ q)"
proof (induction s)
  case Nil
  show ?case by auto
next
  case (Cons c cs)
  show ?case
  proof
    assume "contains k (c # cs)"
    then consider "starts_with k (c # cs)" | "contains k cs" by auto
    then show "\<exists>p q. c # cs = p @ k @ q"
    proof cases
      case 1
      then obtain q where "c # cs = k @ q" by (auto simp: starts_with_iff)
      then have "c # cs = [] @ k @ q" by simp
      then show ?thesis by blast
    next
      case 2
      then obtain p q where "cs = p @ k @ q" using Cons.IH by auto
      then have "c # cs = (c # p) @ k @ q" by simp
      then show ?thesis by blast
    qed
  next
    assume "\<exists>p q. c # cs = p @ k @ q"
    then obtain p q where pq: "c # cs = p @ k @ q" by auto
    show "contains k (c # cs)"
    proof (cases p)
      case Nil
      then have "starts_with k (c # cs)" using pq by (auto simp: starts_with_iff)
      then show ?thesis by simp
    next
      case (Cons a p')
      then have "cs = p' @ k @ q" using pq by simp
      then have "contains k cs" using Cons.IH by blast
      then show ?thesis by simp
    qed
  qed
qed

lemma is_date_name_iff:
  "is_date_name s \<longleftrightarrow>
     (\<exists>k\<in>set [''date'', ''time'', ''year'', ''day'', ''month'']. \<exists>p q. lower s = p @ k @ q)"
  unfolding is_date_name_def date_keywords_def list_ex_iff contains_iff ..

lemma fold_min_Min: "fold min ts (t :: int) = Min (insert t (set ts))"
  using Min.set_eq_fold [of t ts] by simp

lemma ts_min_eq:
  "ts_min xs = (if dropna xs = [] then None else Some (Min (set (dropna xs))))"
  by (cases "dropna xs") (simp_all add: ts_min_def fold_min_Min)

lemma parse_dates_nth:
  assumes "j < length xs" and "xs ! j = None \<or> xs ! j = Some s \<and> str_to_ts ps xs s = None"
  shows "parse_dates ps xs ! j = None"
  using assms by (auto simp: parse_dates_def)

lemma text_dates_naive: "text_dates ps xs = Inr (DatetimeCol ts) \<Longrightarrow> ts = parse_dates ps xs"
  by (auto simp: text_dates_def split: dt_outcome.splits)

lemma fill_col_name: "name (fill_dt_col (fill_cat_col (fill_num_col c))) = name c"
  by (simp add: fill_dt_col_name fill_cat_col_name fill_num_col_name)

lemma fill_col_dtype: "dtype (fill_dt_col (fill_cat_col (fill_num_col c))) = dtype c"
  by (cases "data c") (simp_all add: fill_col_cases dtype_def)

lemma to_datetime_non_text:
  "dtype_of d = Bool \<or> dtype_of d = Int64 \<or> dtype_of d = Float64 \<Longrightarrow>
     \<exists>ts. to_datetime ps d = Inr (DatetimeCol ts)"
  by (cases d) simp_all

text \<open>
  Claim C7, as amended: after the type-inference loop, a column whose lower-cased name
  contains one of the five keywords is handed to \<^verbatim>\<open>to_datetime\<close>. When that returns, its
  result replaces the column, whatever type the first loop gave it; a boolean, integer or
  float column always comes back as a datetime column without time zone. When it raises,
  the column is processed as if its name had not matched. When the result is a datetime
  column without time zone, a text that does not parse and a missing cell are NaT in it,
  and in the output each NaT is replaced by the smallest timestamp of the column, when
  there is one.
\<close>

theorem date_columns_by_name:
  assumes "infer_types ps (drop_duplicates df) = Inr df2" and "clean_data ps df = Inr out"
    and "i < length df2"
    and "\<exists>k\<in>set [''date'', ''time'', ''year'', ''day'', ''month''].
           \<exists>p q. lower (name (df2 ! i)) = p @ k @ q"
  shows "(\<forall>e. to_datetime ps (data (df2 ! i)) = Inl e \<longrightarrow>
            out ! i = fill_dt_col (fill_cat_col (fill_num_col (df2 ! i))))
       \<and> (\<forall>d. to_datetime ps (data (df2 ! i)) = Inr d \<longrightarrow>
            name (out ! i) = name (df2 ! i) \<and> dtype (out ! i) = dtype_of d
            \<and> col_len (out ! i) = col_len (df2 ! i))
       \<and> (dtype (df2 ! i) = Bool \<or> dtype (df2 ! i) = Int64 \<or> dtype (df2 ! i) = Float64 \<longrightarrow>
            (\<exists>ts. to_datetime ps (data (df2 ! i)) = Inr (DatetimeCol ts)))
       \<and> (\<forall>ts. to_datetime ps (data (df2 ! i)) = Inr (DatetimeCol ts) \<longrightarrow>
            (\<forall>xs j s. (data (df2 ! i) = ObjectCol xs \<or> data (df2 ! i) = CategoryCol xs)
                  \<and> j < length xs
                  \<and> (xs ! j = None \<or> xs ! j = Some s \<and> str_to_ts ps xs s = None)
                  \<longrightarrow> ts ! j = None)
            \<and> data (out ! i)
                = DatetimeCol (map (\<lambda>t. case t of
                      None \<Rightarrow> if dropna ts = [] then None else Some (Min (set (dropna ts)))
                    | Some v \<Rightarrow> Some v) ts))"
proof -
  let ?c = "df2 ! i"
  let ?F = "\<lambda>c. fill_dt_col (fill_cat_col (fill_num_col c))"
  have dn: "is_date_name (name ?c)" using assms(4) by (simp add: is_date_name_iff)
  have m: "before_fill ps df = Inr (convert_dates ps df2)"
    using assms(1) by (simp add: before_fill_def)
  then have out: "out = map ?F (convert_dates ps df2)"
    using assms(2) by (auto simp: clean_data_Inr)
  have oi: "out ! i = ?F (date_col ps ?c)"
    using assms(3) by (simp add: out convert_dates_def)
  show ?thesis
  proof (intro conjI allI impI)
    fix e assume "to_datetime ps (data ?c) = Inl e"
    then have "date_col ps ?c = ?c" by (simp add: date_col_def)
    then show "out ! i = ?F ?c" by (simp only: oi)
  next
    fix d assume d: "to_datetime ps (data ?c) = Inr d"
    then have dc: "date_col ps ?c = ?c\<lparr>data := d\<rparr>" using dn by (simp add: date_col_def)
    show "name (out ! i) = name ?c" by (simp add: oi dc fill_col_name)
    show "dtype (out ! i) = dtype_of d" by (simp add: oi dc fill_col_dtype) (simp add: dtype_def)
    show "col_len (out ! i) = col_len ?c"
      using length_cells_to_datetime [OF d] by (simp add: oi dc fill_col_len) (simp add: col_len_def cells_def)
  next
    assume "dtype ?c = Bool \<or> dtype ?c = Int64 \<or> dtype ?c = Float64"
    then show "\<exists>ts. to_datetime ps (data ?c) = Inr (DatetimeCol ts)"
      unfolding dtype_def by (rule to_datetime_non_text)
  next
    fix ts xs j s
    assume ts: "to_datetime ps (data ?c) = Inr (DatetimeCol ts)"
      and a: "(data ?c = ObjectCol xs \<or> data ?c = CategoryCol xs) \<and> j < length xs
                \<and> (xs ! j = None \<or> xs ! j = Some s \<and> str_to_ts ps xs s = None)"
    then have "text_dates ps xs = Inr (DatetimeCol ts)" by auto
    then have "ts = parse_dates ps xs" by (rule text_dates_naive)
    moreover have j: "j < length xs"
      and x: "xs ! j = None \<or> xs ! j = Some s \<and> str_to_ts ps xs s = None"
      using a by simp_all
    have "parse_dates ps xs ! j = None" by (rule parse_dates_nth [OF j x])
    ultimately show "ts ! j = None" by simp
  next
    fix ts
    assume ts: "to_datetime ps (data ?c) = Inr (DatetimeCol ts)"
    then have dc: "date_col ps ?c = ?c\<lparr>data := DatetimeCol ts\<rparr>"
      using dn by (simp add: date_col_def)
    have "data (out ! i) = DatetimeCol (fillna (ts_min ts) ts)"
      by (simp add: oi dc fill_col_cases)
    then show "data (out ! i)
        = DatetimeCol (map (\<lambda>t. case t of
              None \<Rightarrow> if dropna ts = [] then None else Some (Min (set (dropna ts)))
            | Some v \<Rightarrow> Some v) ts)"
      by (simp add: fillna_def ts_min_eq)
  qed
qed

theorem date_columns_by_name_witness:
  "clean_data toy_parsers
     [\<lparr>name = ''Order_Date'', data = ObjectCol [Some ''2021-01-01'', Some ''n/a'']\<rparr>,
      \<lparr>name = ''is_holiday'', data = BoolCol [True, False]\<rparr>]
   = Inr
     [\<lparr>name = ''Order_Date'',
       data = DatetimeCol [Some 1609459200000000000, Some 1609459200000000000]\<rparr>,
      \<lparr>name = ''is_holiday'', data = DatetimeCol [None, None]\<rparr>]
   \<and> (\<exists>ts. to_datetime toy_parsers (ObjectCol [Some ''2021-01-01'', Some ''n/a''])
              = Inr (DatetimeCol ts)
          \<and> ts ! 1 = None
          \<and> DatetimeCol [Some 1609459200000000000, Some 1609459200000000000]
              = DatetimeCol (map (\<lambda>t. case t of
                    None \<Rightarrow> if dropna ts = [] then None else Some (Min (set (dropna ts)))
                  | Some v \<Rightarrow> Some v) ts))
   \<and> (\<exists>ts. to_datetime toy_parsers (BoolCol [True, False]) = Inr (DatetimeCol ts))"
proof -
  let ?df = "[\<lparr>name = ''Order_Date'', data = ObjectCol [Some ''2021-01-01'', Some ''n/a'']\<rparr>,
      \<lparr>name = ''is_holiday'', data = BoolCol [True, False]\<rparr>]"
  let ?out = "[\<lparr>name = ''Order_Date'',
       data = DatetimeCol [Some 1609459200000000000, Some 1609459200000000000]\<rparr>,
      \<lparr>name = ''is_holiday'', data = DatetimeCol [None, None]\<rparr>]"
  have h1: "infer_types toy_parsers (drop_duplicates ?df) = Inr ?df" by code_simp
  have h2: "clean_data toy_parsers ?df = Inr ?out" by code_simp
  have i0: "0 < length ?df" and i1: "1 < length ?df" by simp_all
  have "is_date_name (name (?df ! 0))" by code_simp
  then have k0: "\<exists>k\<in>set [''date'', ''time'', ''year'', ''day'', ''month''].
      \<exists>p q. lower (name (?df ! 0)) = p @ k @ q"
    by (simp only: is_date_name_iff)
  have "is_date_name (name (?df ! 1))" by code_simp
  then have k1: "\<exists>k\<in>set [''date'', ''time'', ''year'', ''day'', ''month''].
      \<exists>p q. lower (name (?df ! 1)) = p @ k @ q"
    by (simp only: is_date_name_iff)
  have t0: "to_datetime toy_parsers (data (?df ! 0))
      = Inr (DatetimeCol (parse_dates toy_parsers [Some ''2021-01-01'', Some ''n/a'']))"
    by (simp add: text_dates_def toy_parsers_def)
  have d1: "dtype (?df ! 1) = Bool" by code_simp
  have s: "str_to_ts toy_parsers [Some ''2021-01-01'', Some ''n/a''] ''n/a'' = None"
    by (simp add: toy_parsers_def)
  note th0 = date_columns_by_name [OF h1 h2 i0 k0]
  let ?ts = "parse_dates toy_parsers [Some ''2021-01-01'', Some ''n/a'']"
  have un: "\<forall>xs j s. (data (?df ! 0) = ObjectCol xs \<or> data (?df ! 0) = CategoryCol xs)
                  \<and> j < length xs
                  \<and> (xs ! j = None \<or> xs ! j = Some s \<and> str_to_ts toy_parsers xs s = None)
                  \<longrightarrow> ?ts ! j = None"
    and fl: "data (?out ! 0)
       = DatetimeCol (map (\<lambda>t. case t of
             None \<Rightarrow> if dropna ?ts = [] then None else Some (Min (set (dropna ?ts)))
           | Some v \<Rightarrow> Some v) ?ts)"
    using th0 t0 by blast+
  have "?ts ! 1 = None"
    using un [rule_format, of "[Some ''2021-01-01'', Some ''n/a'']" 1 "''n/a''"] s by simp
  moreover have "\<exists>ts. to_datetime toy_parsers (BoolCol [True, False]) = Inr (DatetimeCol ts)"
    using date_columns_by_name [OF h1 h2 i1 k1] d1 by simp
  ultimately show ?thesis using h2 t0 fl by auto
qed

text \<open>
  The claim as stated fails on a date column whose texts carry a UTC offset: the result of
  \<^verbatim>\<open>to_datetime\<close> has a time zone, the filling step selects only datetime columns
  without one, and the NaT of the text that did not parse stays.
\<close>

theorem zoned_date_column_keeps_missing:
  "is_date_name ''event_date''
   \<and> clean_data toy_parsers
       [\<lparr>name = ''event_date'', data = ObjectCol [Some ''2021-01-01T00:00:00Z'', Some ''soon'']\<rparr>]
     = Inr [\<lparr>name = ''event_date'',
             data = DatetimeTZCol ''UTC'' [Some 1609459200000000000, None]\<rparr>]"
  by code_simp

subsection \<open>The summary\<close>

lemma length_rows_of: "length (rows_of df) = nrows df"
  by (simp add: rows_of_def)

lemma nrows_head: "nrows (head k df) = min k (nrows df)"
proof (cases "df = []")
  case True
  then show ?thesis by (simp add: head_def take_rows_def nrows_def)
next
  case False
  then show ?thesis by (simp add: head_def nrows_take_rows)
qed

lemma take_upt_min: "take k [0..<n] = [0..<min k n]"
  by (cases "k \<le> n") (simp_all add: min_def)

lemma rows_of_head:
  assumes "wf_df df"
  shows "rows_of (head k df) = take k (rows_of df)"
proof (cases "df = []")
  case True
  then show ?thesis by (simp add: head_def take_rows_def rows_of_def nrows_def)
next
  case False
  have "list_all (\<lambda>i. i < nrows df) [0..<min k (nrows df)]"
    by (simp add: list_all_iff)
  then have "rows_of (head k df) = map (row df) [0..<min k (nrows df)]"
    unfolding head_def by (rule rows_of_take_rows [OF assms _ False])
  also have "\<dots> = take k (rows_of df)"
    by (simp add: rows_of_def take_map take_upt_min)
  finally show ?thesis .
qed

lemma columns_head: "columns (head k df) = columns df"
  by (simp add: columns_def head_def take_rows_def comp_def)

lemma select_dtypes_names:
  assumes "map name df' = map name df" and "map dtype df' = map dtype df"
  shows "columns (select_dtypes inc df') = columns (select_dtypes inc df)"
proof -
  have "length df' = length df" using assms(1) by (rule map_eq_imp_length_eq)
  then show ?thesis using assms
    by (induction df' df rule: list_induct2) (simp_all add: columns_def select_dtypes_def)
qed

lemma tz_aware_dtype: "tz_aware c \<longleftrightarrow> (\<exists>z. dtype c = DatetimeTZ z)"
  by (cases "data c") (simp_all add: tz_aware_def dtype_def)

lemma select_dtypes_filter:
  "columns (select_dtypes [Int64, Float64] df)
     = map name (filter (\<lambda>c. dtype c = Int64 \<or> dtype c = Float64) df)"
  "columns (select_dtypes [Object, Category] df)
     = map name (filter (\<lambda>c. dtype c = Object \<or> dtype c = Category) df)"
  "columns (select_dtypes [Datetime] df) = map name (filter (\<lambda>c. dtype c = Datetime) df)"
  "columns (select_dtypes [Bool] df) = map name (filter (\<lambda>c. dtype c = Bool) df)"
  by (simp_all add: columns_def select_dtypes_def)

lemma groups_partition:
  "mset (map name (filter (\<lambda>c. dtype c = Int64 \<or> dtype c = Float64) df)
         @ map name (filter (\<lambda>c. dtype c = Object \<or> dtype c = Category) df)
         @ map name (filter (\<lambda>c. dtype c = Datetime) df)
         @ map name (filter (\<lambda>c. dtype c = Bool) df))
     = mset (map name (filter (\<lambda>c. \<not> tz_aware c) df))"
proof (induction df)
  case Nil
  show ?case by simp
next
  case (Cons c df)
  then show ?case by (cases "dtype c") (simp_all add: tz_aware_dtype)
qed

lemma case_option_cell_inj:
  assumes "(case x of None \<Rightarrow> NA | Some s \<Rightarrow> f s) = (case y of None \<Rightarrow> NA | Some s \<Rightarrow> f s)"
    and "\<And>a b. f a = f b \<Longrightarrow> a = b" and "\<And>a. f a \<noteq> NA"
  shows "x = y"
proof (cases x)
  case None
  then have "(case y of None \<Rightarrow> NA | Some s \<Rightarrow> f s) = NA" using assms(1) by simp
  then show ?thesis using None assms(3) by (cases y) simp_all
next
  case (Some a)
  then have "(case y of None \<Rightarrow> NA | Some s \<Rightarrow> f s) = f a" using assms(1) by simp
  then show ?thesis using Some assms(2) assms(3) [of a] by (cases y) auto
qed

lemma iloc_prefix_eq:
  assumes "dtype_of d = dtype_of d'" and "k \<le> length (cells_of d)" and "k \<le> length (cells_of d')"
    and "\<And>j. j < k \<Longrightarrow> cells_of d ! j = cells_of d' ! j"
  shows "iloc [0..<k] d = iloc [0..<k] d'"
proof -
  show ?thesis
  proof (cases d)
    case (ObjectCol xs)
    then obtain ys where ys: "d' = ObjectCol ys" using assms(1) by (cases d') simp_all
    have "xs ! j = ys ! j" if "j < k" for j
      using assms(2,3) assms(4) [OF that] that ObjectCol ys by (intro case_option_cell_inj [where f = Str]) auto
    then show ?thesis using ObjectCol ys by simp
  next
    case (BoolCol xs)
    then obtain ys where ys: "d' = BoolCol ys" using assms(1) by (cases d') simp_all
    have "xs ! j = ys ! j" if "j < k" for j
      using assms(2,3) assms(4) [OF that] that BoolCol ys by auto
    then show ?thesis using BoolCol ys by simp
  next
    case (Int64Col xs)
    then obtain ys where ys: "d' = Int64Col ys" using assms(1) by (cases d') simp_all
    have "xs ! j = ys ! j" if "j < k" for j
      using assms(2,3) assms(4) [OF that] that Int64Col ys by auto
    then show ?thesis using Int64Col ys by simp
  next
    case (Float64Col xs)
    then obtain ys where ys: "d' = Float64Col ys" using assms(1) by (cases d') simp_all
    have "xs ! j = ys ! j" if "j < k" for j
      using assms(2,3) assms(4) [OF that] that Float64Col ys by (intro case_option_cell_inj [where f = FloatV]) auto
    then show ?thesis using Float64Col ys by simp
  next
    case (DatetimeCol xs)
    then obtain ys where ys: "d' = DatetimeCol ys" using assms(1) by (cases d') simp_all
    have "xs ! j = ys ! j" if "j < k" for j
      using assms(2,3) assms(4) [OF that] that DatetimeCol ys by (intro case_option_cell_inj [where f = Ts]) auto
    then show ?thesis using DatetimeCol ys by simp
  next
    case (CategoryCol xs)
    then obtain ys where ys: "d' = CategoryCol ys" using assms(1) by (cases d') simp_all
    have "xs ! j = ys ! j" if "j < k" for j
      using assms(2,3) assms(4) [OF that] that CategoryCol ys by (intro case_option_cell_inj [where f = Str]) auto
    then show ?thesis using CategoryCol ys by simp
  next
    case (DatetimeTZCol z xs)
    then obtain ys where ys: "d' = DatetimeTZCol z ys" using assms(1) by (cases d') simp_all
    have "xs ! j = ys ! j" if "j < k" for j
      using assms(2,3) assms(4) [OF that] that DatetimeTZCol ys by (intro case_option_cell_inj [where f = Ts]) auto
    then show ?thesis using DatetimeTZCol ys by simp
  qed
qed

lemma head_eq:
  assumes "wf_df df" and "wf_df df'"
    and "map name df' = map name df" and "map dtype df' = map dtype df"
    and "take k (rows_of df') = take k (rows_of df)"
  shows "head k df' = head k df"
proof -
  have len: "length df' = length df" using assms(3) by (rule map_eq_imp_length_eq)
  have "length (take k (rows_of df')) = length (take k (rows_of df))" using assms(5) by simp
  then have mk: "min k (nrows df') = min k (nrows df)"
    by (simp add: length_rows_of min.commute)
  define m where "m = min k (nrows df)"
  have rows: "row df' j = row df j" if "j < m" for j
  proof -
    have j: "j < k" "j < nrows df" "j < nrows df'" using that mk by (auto simp: m_def min_def split: if_splits)
    have "take k (rows_of df') ! j = take k (rows_of df) ! j" using assms(5) by simp
    then have "rows_of df' ! j = rows_of df ! j" using j(1) by simp
    then show ?thesis using j(2,3) by (simp add: rows_of_def)
  qed
  show ?thesis
  proof (rule nth_equalityI)
    show "length (head k df') = length (head k df)"
      using len by (simp add: head_def take_rows_def)
  next
    fix i assume "i < length (head k df')"
    then have i: "i < length df" "i < length df'"
      using len by (simp_all add: head_def take_rows_def)
    have nm: "name (df' ! i) = name (df ! i)"
      using assms(3) i by (metis nth_map)
    have dt: "dtype_of (data (df' ! i)) = dtype_of (data (df ! i))"
      using assms(4) i by (metis nth_map dtype_def)
    have l1: "m \<le> length (cells_of (data (df ! i)))"
      using wf_col_len [OF assms(1), of "df ! i"] i by (simp add: m_def col_len_def cells_def)
    have l2: "m \<le> length (cells_of (data (df' ! i)))"
      using wf_col_len [OF assms(2), of "df' ! i"] i mk
      by (simp add: m_def col_len_def cells_def)
    have c: "cells_of (data (df' ! i)) ! j = cells_of (data (df ! i)) ! j" if "j < m" for j
    proof -
      have "row df' j ! i = row df j ! i" using rows [OF that] by simp
      then show ?thesis using i by (simp add: row_def cells_def)
    qed
    have "iloc [0..<m] (data (df' ! i)) = iloc [0..<m] (data (df ! i))"
      by (rule iloc_prefix_eq [OF dt l2 l1 c])
    moreover have "column.more (df' ! i) = column.more (df ! i)" by simp
    ultimately have "(df' ! i)\<lparr>data := iloc [0..<m] (data (df' ! i))\<rparr>
        = (df ! i)\<lparr>data := iloc [0..<m] (data (df ! i))\<rparr>"
      using nm by (intro column.equality) simp_all
    then show "head k df' ! i = head k df ! i"
      using i mk by (simp add: head_def take_rows_def m_def)
  qed
qed

text \<open>
  Claim C9, as amended: the summary is a total function of the table. It reports the
  table's row and column counts. Each of the four groups lists, in table order, the names
  of the columns of its storage types: \<^verbatim>\<open>int64\<close> and \<^verbatim>\<open>float64\<close>; \<^verbatim>\<open>object\<close> and
  \<^verbatim>\<open>category\<close>; datetime without time zone; \<^verbatim>\<open>bool\<close>. So every column that is not a
  datetime column with a time zone is listed exactly once. The sample has the table's
  columns and its first \<open>min N 3\<close> rows. For a table without rows the row count is zero
  and the sample has no rows, while the column count and the groups are those of the
  table's columns, all zero and empty when the table has no columns. Apart from the row
  count, the summary depends only on the columns' names and types and on the first three
  rows.
\<close>

theorem summary_of_table:
  assumes "wf_df df"
  shows "num_rows (get_dataset_summary df) = nrows df
       \<and> num_cols (get_dataset_summary df) = length df
       \<and> numeric_columns (get_dataset_summary df)
           = map name (filter (\<lambda>c. dtype c = Int64 \<or> dtype c = Float64) df)
       \<and> categorical_columns (get_dataset_summary df)
           = map name (filter (\<lambda>c. dtype c = Object \<or> dtype c = Category) df)
       \<and> datetime_columns (get_dataset_summary df)
           = map name (filter (\<lambda>c. dtype c = Datetime) df)
       \<and> boolean_columns (get_dataset_summary df)
           = map name (filter (\<lambda>c. dtype c = Bool) df)
       \<and> mset (numeric_columns (get_dataset_summary df)
                @ categorical_columns (get_dataset_summary df)
                @ datetime_columns (get_dataset_summary df)
                @ boolean_columns (get_dataset_summary df))
           = mset (map name (filter (\<lambda>c. \<not> tz_aware c) df))
       \<and> columns (sample (get_dataset_summary df)) = columns df
       \<and> nrows (sample (get_dataset_summary df)) = min (nrows df) 3
       \<and> rows_of (sample (get_dataset_summary df)) = take 3 (rows_of df)
       \<and> (nrows df = 0 \<longrightarrow> num_rows (get_dataset_summary df) = 0
              \<and> rows_of (sample (get_dataset_summary df)) = [])
       \<and> (df = [] \<longrightarrow> get_dataset_summary df =
              \<lparr>num_rows = 0, num_cols = 0, numeric_columns = [], categorical_columns = [],
               datetime_columns = [], boolean_columns = [], sample = []\<rparr>)
       \<and> (\<forall>df'. wf_df df' \<and> map name df' = map name df \<and> map dtype df' = map dtype df
              \<and> take 3 (rows_of df') = take 3 (rows_of df) \<longrightarrow>
              get_dataset_summary df' = (get_dataset_summary df)\<lparr>num_rows := nrows df'\<rparr>)"
proof (intro conjI allI impI)
  show "num_rows (get_dataset_summary df) = nrows df"
    and "num_cols (get_dataset_summary df) = length df"
    by (simp_all add: get_dataset_summary_def)
  show n: "numeric_columns (get_dataset_summary df)
           = map name (filter (\<lambda>c. dtype c = Int64 \<or> dtype c = Float64) df)"
    and c: "categorical_columns (get_dataset_summary df)
           = map name (filter (\<lambda>c. dtype c = Object \<or> dtype c = Category) df)"
    and d: "datetime_columns (get_dataset_summary df)
           = map name (filter (\<lambda>c. dtype c = Datetime) df)"
    and b: "boolean_columns (get_dataset_summary df)
           = map name (filter (\<lambda>c. dtype c = Bool) df)"
    by (simp_all add: get_dataset_summary_def select_dtypes_filter)
  show "mset (numeric_columns (get_dataset_summary df)
                @ categorical_columns (get_dataset_summary df)
                @ datetime_columns (get_dataset_summary df)
                @ boolean_columns (get_dataset_summary df))
           = mset (map name (filter (\<lambda>c. \<not> tz_aware c) df))"
    unfolding n c d b by (rule groups_partition)
  show "columns (sample (get_dataset_summary df)) = columns df"
    by (simp add: get_dataset_summary_def columns_head)
  show "nrows (sample (get_dataset_summary df)) = min (nrows df) 3"
    by (simp add: get_dataset_summary_def nrows_head min.commute)
  show r: "rows_of (sample (get_dataset_summary df)) = take 3 (rows_of df)"
    by (simp add: get_dataset_summary_def rows_of_head [OF assms])
  {
    assume z: "nrows df = 0"
    then show "num_rows (get_dataset_summary df) = 0"
      by (simp add: get_dataset_summary_def)
    have "rows_of df = []" using z by (simp add: rows_of_def)
    then show "rows_of (sample (get_dataset_summary df)) = []" by (simp add: r)
  }
  {
    assume "df = []"
    then show "get_dataset_summary df =
              \<lparr>num_rows = 0, num_cols = 0, numeric_columns = [], categorical_columns = [],
               datetime_columns = [], boolean_columns = [], sample = []\<rparr>"
      by (simp add: get_dataset_summary_def nrows_def columns_def select_dtypes_def head_def
          take_rows_def)
  }
  {
    fix df'
    assume a: "wf_df df' \<and> map name df' = map name df \<and> map dtype df' = map dtype df
              \<and> take 3 (rows_of df') = take 3 (rows_of df)"
    then have nm: "map name df' = map name df" and dt: "map dtype df' = map dtype df" by simp_all
    have len: "length df' = length df" using nm by (rule map_eq_imp_length_eq)
    have hd: "head 3 df' = head 3 df"
      using a by (intro head_eq [OF assms]) simp_all
    show "get_dataset_summary df' = (get_dataset_summary df)\<lparr>num_rows := nrows df'\<rparr>"
      by (simp add: get_dataset_summary_def len hd select_dtypes_names [OF nm dt])
  }
qed

theorem summary_of_table_witness:
  "wf_df [\<lparr>name = ''n'', data = Int64Col [1, 2, 3, 4]\<rparr>,
          \<lparr>name = ''t'', data = ObjectCol [Some ''a'', None, Some ''c'', Some ''d'']\<rparr>]
   \<and> get_dataset_summary
        [\<lparr>name = ''n'', data = Int64Col [1, 2, 3, 4]\<rparr>,
         \<lparr>name = ''t'', data = ObjectCol [Some ''a'', None, Some ''c'', Some ''d'']\<rparr>]
     = \<lparr>num_rows = 4, num_cols = 2, numeric_columns = [''n''], categorical_columns = [''t''],
        datetime_columns = [], boolean_columns = [],
        sample = [\<lparr>name = ''n'', data = Int64Col [1, 2, 3]\<rparr>,
                  \<lparr>name = ''t'', data = ObjectCol [Some ''a'', None, Some ''c'']\<rparr>]\<rparr>
   \<and> rows_of (sample (get_dataset_summary
        [\<lparr>name = ''n'', data = Int64Col [1, 2, 3, 4]\<rparr>,
         \<lparr>name = ''t'', data = ObjectCol [Some ''a'', None, Some ''c'', Some ''d'']\<rparr>]))
     = [[IntV 1, Str ''a''], [IntV 2, NA], [IntV 3, Str ''c'']]
   \<and> get_dataset_summary
        [\<lparr>name = ''n'', data = Int64Col [1, 2, 3, 7, 8]\<rparr>,
         \<lparr>name = ''t'', data = ObjectCol [Some ''a'', None, Some ''c'', None, None]\<rparr>]
     = (get_dataset_summary
        [\<lparr>name = ''n'', data = Int64Col [1, 2, 3, 4]\<rparr>,
         \<lparr>name = ''t'', data = ObjectCol [Some ''a'', None, Some ''c'', Some ''d'']\<rparr>])
       \<lparr>num_rows := 5\<rparr>"
proof -
  let ?df = "[\<lparr>name = ''n'', data = Int64Col [1, 2, 3, 4]\<rparr>,
          \<lparr>name = ''t'', data = ObjectCol [Some ''a'', None, Some ''c'', Some ''d'']\<rparr>]"
  let ?df' = "[\<lparr>name = ''n'', data = Int64Col [1, 2, 3, 7, 8]\<rparr>,
         \<lparr>name = ''t'', data = ObjectCol [Some ''a'', None, Some ''c'', None, None]\<rparr>]"
  have w: "wf_df ?df" by code_simp
  have w': "wf_df ?df'" by code_simp
  have nm: "map name ?df' = map name ?df" by simp
  have dt: "map dtype ?df' = map dtype ?df" by (simp add: dtype_def)
  have r: "take 3 (rows_of ?df) = [[IntV 1, Str ''a''], [IntV 2, NA], [IntV 3, Str ''c'']]"
    by code_simp
  have r': "take 3 (rows_of ?df') = [[IntV 1, Str ''a''], [IntV 2, NA], [IntV 3, Str ''c'']]"
    by code_simp
  have n': "nrows ?df' = 5" by code_simp
  have s: "get_dataset_summary ?df
     = \<lparr>num_rows = 4, num_cols = 2, numeric_columns = [''n''], categorical_columns = [''t''],
        datetime_columns = [], boolean_columns = [],
        sample = [\<lparr>name = ''n'', data = Int64Col [1, 2, 3]\<rparr>,
                  \<lparr>name = ''t'', data = ObjectCol [Some ''a'', None, Some ''c'']\<rparr>]\<rparr>"
    by code_simp
  note t = summary_of_table [OF w]
  have t6: "rows_of (sample (get_dataset_summary ?df)) = take 3 (rows_of ?df)"
    using t by blast
  have t9: "\<forall>df'. wf_df df' \<and> map name df' = map name ?df \<and> map dtype df' = map dtype ?df
              \<and> take 3 (rows_of df') = take 3 (rows_of ?df) \<longrightarrow>
              get_dataset_summary df' = (get_dataset_summary ?df)\<lparr>num_rows := nrows df'\<rparr>"
    using t by blast
  have "get_dataset_summary ?df' = (get_dataset_summary ?df)\<lparr>num_rows := nrows ?df'\<rparr>"
    using t9 w' nm dt r r' by (intro t9 [rule_format]) simp
  then show ?thesis
    using w s t6 r n' by simp
qed

text \<open>
  The claim as stated fails on a table without rows that has a column: the column count is
  1 and the numeric group holds the column's name.
\<close>

theorem summary_of_empty_table_with_column:
  "nrows [\<lparr>name = ''a'', data = Int64Col []\<rparr>] = 0
   \<and> get_dataset_summary [\<lparr>name = ''a'', data = Int64Col []\<rparr>]
     = \<lparr>num_rows = 0, num_cols = 1, numeric_columns = [''a''], categorical_columns = [],
        datetime_columns = [], boolean_columns = [],
        sample = [\<lparr>name = ''a'', data = Int64Col []\<rparr>]\<rparr>"
  by code_simp

subsection \<open>A second normalisation\<close>

lemma iloc_all: "length (cells_of d) = n \<Longrightarrow> iloc [0..<n] d = d"
  by (cases d) (auto simp: map_nth)

lemma take_rows_all:
  assumes "wf_df df"
  shows "take_rows [0..<nrows df] df = df"
proof -
  have "c\<lparr>data := iloc [0..<nrows df] (data c)\<rparr> = c" if "c \<in> set df" for c
  proof -
    have "length (cells_of (data c)) = nrows df"
      using wf_col_len [OF assms that] by (simp add: col_len_def cells_def)
    then show ?thesis by (simp add: iloc_all)
  qed
  then show ?thesis by (simp add: take_rows_def map_idI)
qed

lemma kept_rows_distinct:
  assumes "distinct (rows_of df)"
  shows "kept_rows df = [0..<nrows df]"
proof -
  have "row df i \<notin> set (map (row df) [0..<i])" if "i < nrows df" for i
  proof
    assume "row df i \<in> set (map (row df) [0..<i])"
    then obtain j where j: "j < i" "row df j = row df i" by auto
    have "rows_of df ! j = rows_of df ! i"
      using j that by (simp add: rows_of_def)
    then have "j = i"
      using assms j(1) that by (simp add: nth_eq_iff_index_eq length_rows_of)
    then show False using j(1) by simp
  qed
  then show ?thesis by (simp add: kept_rows_def)
qed

lemma drop_duplicates_distinct:
  assumes "wf_df df" and "distinct (rows_of df)"
  shows "drop_duplicates df = df"
  by (simp add: drop_duplicates_def kept_rows_distinct [OF assms(2)] take_rows_all [OF assms(1)])

lemma fillna_no_None: "None \<notin> set xs \<Longrightarrow> fillna v xs = xs"
  by (auto simp: fillna_def intro!: map_idI split: option.splits)

lemma fillna_twice:
  "fillna (st (fillna (st xs) xs)) (fillna (st xs) xs) = fillna (st xs) xs"
proof (cases "st xs")
  case None
  then show ?thesis by (simp add: fillna_None)
next
  case (Some v)
  then show ?thesis by (simp add: fillna_no_None fillna_Some_no_None)
qed

lemma ts_round_trip: "Some iNaT \<notin> set ts \<Longrightarrow> map ts_of_int (map int_of_ts ts) = ts"
proof (induction ts)
  case Nil
  show ?case by simp
next
  case (Cons t ts)
  then show ?case by (cases t) (auto simp: ts_of_int_def int_of_ts_def)
qed

lemma ts_of_int_not_iNaT: "ts_of_int i \<noteq> Some iNaT" "Some iNaT \<noteq> ts_of_int i"
  by (simp_all add: ts_of_int_def)

lemma parse_dates_normalised: "Some iNaT \<notin> set (parse_dates ps xs)"
  by (auto simp: parse_dates_def ts_of_int_not_iNaT split: option.splits)

lemma to_datetime_normalised:
  assumes "to_datetime ps d = Inr (DatetimeCol ts)" and "dtype_of d \<noteq> Datetime"
  shows "Some iNaT \<notin> set ts"
proof (cases d)
  case (BoolCol xs)
  then show ?thesis using assms(1) by auto
next
  case (Int64Col xs)
  then show ?thesis using assms(1) by (auto simp: ts_of_int_not_iNaT)
next
  case (Float64Col xs)
  then show ?thesis
    using assms(1) by (auto simp: float_dates_def ts_of_int_not_iNaT split: option.splits)
next
  case (ObjectCol xs)
  then have "ts = parse_dates ps xs" using assms(1) by (simp add: text_dates_naive)
  then show ?thesis by (simp add: parse_dates_normalised)
next
  case (CategoryCol xs)
  then have "ts = parse_dates ps xs" using assms(1) by (simp add: text_dates_naive)
  then show ?thesis by (simp add: parse_dates_normalised)
qed (use assms in auto)

lemma ts_min_mem: "ts_min ts = Some t \<Longrightarrow> Some t \<in> set ts"
proof -
  assume a: "ts_min ts = Some t"
  then have ne: "dropna ts \<noteq> []" and t: "t = Min (set (dropna ts))"
    by (auto simp: ts_min_eq split: if_splits)
  have "Min (set (dropna ts)) \<in> set (dropna ts)"
    using ne by (intro Min_in) simp_all
  then show ?thesis using t by (simp add: set_dropna)
qed

lemma fillna_ts_min_normalised:
  assumes "Some iNaT \<notin> set ts"
  shows "Some iNaT \<notin> set (fillna (ts_min ts) ts)"
proof
  assume "Some iNaT \<in> set (fillna (ts_min ts) ts)"
  then obtain x where x: "x \<in> set ts" "(case x of None \<Rightarrow> ts_min ts | Some y \<Rightarrow> Some y) = Some iNaT"
    by (auto simp: fillna_def)
  show False
  proof (cases x)
    case None
    then have "ts_min ts = Some iNaT" using x(2) by simp
    then show False using ts_min_mem assms by blast
  next
    case (Some y)
    then show False using x assms by simp
  qed
qed

lemma infer_col_result_dtype:
  "infer_col ps n c = Inr c1 \<Longrightarrow>
     dtype c1 = Object \<or> dtype c1 = Category \<or> dtype c1 = Bool \<or> dtype c1 = Int64
       \<or> dtype c1 = Float64"
proof -
  assume a: "infer_col ps n c = Inr c1"
  show ?thesis
  proof (cases "dtype c = Object \<or> dtype c = Bool")
    case True
    then show ?thesis
    proof
      assume "dtype c = Object"
      then obtain xs where xs: "data c = ObjectCol xs"
        by (cases "data c") (simp_all add: dtype_def)
      show ?thesis using a xs by (auto simp: infer_col_Object dtype_def split: if_splits)
    next
      assume "dtype c = Bool"
      then show ?thesis using a by (simp add: infer_col_Bool)
    qed
  next
    case False
    then have "c1 = c\<lparr>data := to_numeric ps (data c)\<rparr>"
      using a by (simp add: infer_col_other)
    moreover have "dtype_of (data c) \<noteq> Bool" using False by (simp add: dtype_def)
    ultimately show ?thesis using dtype_to_numeric [of "data c" ps] by (auto simp: dtype_def)
  qed
qed

lemma infer_col_Object_same:
  assumes "infer_col ps n c = Inr c1" and "data c1 = ObjectCol xs"
  shows "c1 = c"
proof (cases "dtype c = Object \<or> dtype c = Bool")
  case True
  then show ?thesis
  proof
    assume "dtype c = Object"
    then obtain ys where ys: "data c = ObjectCol ys"
      by (cases "data c") (simp_all add: dtype_def)
    show ?thesis using assms ys by (auto simp: infer_col_Object split: if_splits)
  next
    assume "dtype c = Bool"
    then show ?thesis using assms by (simp add: infer_col_Bool)
  qed
next
  case False
  then have "c1 = c\<lparr>data := to_numeric ps (data c)\<rparr>"
    using assms(1) by (simp add: infer_col_other)
  moreover have "dtype_of (data c) \<noteq> Bool" using False by (simp add: dtype_def)
  ultimately have "dtype_of (data c1) = Int64 \<or> dtype_of (data c1) = Float64"
    using dtype_to_numeric [of "data c" ps] by auto
  then show ?thesis using assms(2) by simp
qed

lemma column_second_pass:
  assumes "infer_col ps n c = Inr c1"
    and "dtype (fill_dt_col (fill_cat_col (fill_num_col (date_col ps c1)))) \<noteq> Category"
    and "is_date_name (name c1) \<longrightarrow>
           dtype (fill_dt_col (fill_cat_col (fill_num_col (date_col ps c1)))) = Datetime"
  shows "\<exists>o1. infer_col ps n (fill_dt_col (fill_cat_col (fill_num_col (date_col ps c1)))) = Inr o1
            \<and> fill_dt_col (fill_cat_col (fill_num_col (date_col ps o1)))
                = fill_dt_col (fill_cat_col (fill_num_col (date_col ps c1)))"
proof -
  let ?F = "\<lambda>c. fill_dt_col (fill_cat_col (fill_num_col c))"
  let ?o = "?F (date_col ps c1)"
  have ty: "dtype c1 = Object \<or> dtype c1 = Category \<or> dtype c1 = Bool \<or> dtype c1 = Int64
       \<or> dtype c1 = Float64"
    by (rule infer_col_result_dtype [OF assms(1)])
  then have nd: "dtype c1 \<noteq> Datetime" by auto
  show ?thesis
  proof (cases "is_date_name (name c1)")
    case True
    then have "dtype ?o = Datetime" using assms(3) by simp
    then have dd: "dtype (date_col ps c1) = Datetime" by (simp only: fill_col_dtype)
    obtain ts where ts: "to_datetime ps (data c1) = Inr (DatetimeCol ts)"
    proof (cases "to_datetime ps (data c1)")
      case (Inl e)
      then have "date_col ps c1 = c1" by (simp add: date_col_def)
      then show ?thesis using dd nd by simp
    next
      case (Inr d)
      then have "date_col ps c1 = c1\<lparr>data := d\<rparr>" using True by (simp add: date_col_def)
      then have "dtype_of d = Datetime" using dd by (simp add: dtype_def)
      then obtain ts where "d = DatetimeCol ts" by (cases d) simp_all
      then show ?thesis using Inr that by simp
    qed
    have norm: "Some iNaT \<notin> set ts"
      using to_datetime_normalised [OF ts] nd by (simp add: dtype_def)
    define ts' where "ts' = fillna (ts_min ts) ts"
    have norm': "Some iNaT \<notin> set ts'"
      unfolding ts'_def by (rule fillna_ts_min_normalised [OF norm])
    have dc: "date_col ps c1 = c1\<lparr>data := DatetimeCol ts\<rparr>"
      using True ts by (simp add: date_col_def)
    define o' where "o' = c1\<lparr>data := DatetimeCol ts'\<rparr>"
    have o: "?o = o'"
      by (simp add: dc fill_col_cases ts'_def o'_def)
    define o1 where "o1 = c1\<lparr>data := Int64Col (map int_of_ts ts')\<rparr>"
    have i: "infer_col ps n o' = Inr o1"
      by (simp add: o'_def o1_def infer_col_def)
    have "date_col ps o1 = c1\<lparr>data := DatetimeCol (map ts_of_int (map int_of_ts ts'))\<rparr>"
      using True by (simp add: o1_def date_col_def)
    then have "date_col ps o1 = c1\<lparr>data := DatetimeCol ts'\<rparr>"
      by (simp only: ts_round_trip [OF norm'])
    moreover have "fillna (ts_min ts') ts' = ts'"
      unfolding ts'_def by (rule fillna_twice)
    ultimately have "?F (date_col ps o1) = o'"
      by (simp add: fill_col_cases o'_def)
    then show ?thesis unfolding o using i by blast
  next
    case False
    then have dc: "date_col ps c1 = c1" by (simp add: date_col_def)
    show ?thesis
    proof (cases "data c1")
      case (ObjectCol xs)
      then have same: "c1 = c" by (rule infer_col_Object_same [OF assms(1)])
      have o: "?o = c1" using ObjectCol by (simp add: dc fill_col_cases)
      have "infer_col ps n c1 = Inr c1" using assms(1) same by simp
      then have "infer_col ps n ?o = Inr c1" by (simp only: o)
      moreover have "?F (date_col ps c1) = ?o" ..
      ultimately show ?thesis by blast
    next
      case (BoolCol xs)
      have o: "?o = c1" using BoolCol by (simp add: dc fill_col_cases)
      have "infer_col ps n c1 = Inr c1"
        using BoolCol by (simp add: infer_col_Bool dtype_def)
      then have "infer_col ps n ?o = Inr c1" by (simp only: o)
      moreover have "?F (date_col ps c1) = ?o" ..
      ultimately show ?thesis by blast
    next
      case (Int64Col xs)
      have o: "?o = c1" using Int64Col by (simp add: dc fill_col_cases)
      have "c1\<lparr>data := Int64Col xs\<rparr> = c1" using Int64Col by simp
      then have "infer_col ps n c1 = Inr c1"
        using Int64Col by (simp add: infer_col_def)
      then have "infer_col ps n ?o = Inr c1" by (simp only: o)
      moreover have "?F (date_col ps c1) = ?o" ..
      ultimately show ?thesis by blast
    next
      case (Float64Col xs)
      define ys where "ys = fillna (median xs) xs"
      define o' where "o' = c1\<lparr>data := Float64Col ys\<rparr>"
      have o: "?o = o'"
        using Float64Col by (simp add: dc fill_col_cases ys_def o'_def)
      have i: "infer_col ps n o' = Inr o'"
        by (simp add: o'_def infer_col_def)
      have "\<not> is_date_name (name o')"
        using False by (simp add: o'_def)
      then have d: "date_col ps o' = o'" by (simp add: date_col_def)
      have "fillna (median ys) ys = ys"
        unfolding ys_def by (rule fillna_twice)
      then have "?F o' = o'"
        by (simp add: o'_def fill_col_cases)
      then have "?F (date_col ps o') = o'" by (simp only: d)
      then show ?thesis unfolding o using i by blast
    next
      case (DatetimeCol xs)
      then show ?thesis using ty by (simp add: dtype_def)
    next
      case (DatetimeTZCol z xs)
      then show ?thesis using ty by (simp add: dtype_def)
    next
      case (CategoryCol xs)
      then have "dtype ?o = Category" by (simp add: dc fill_col_cases dtype_def)
      then show ?thesis using assms(2) by simp
    qed
  qed
qed

lemma ex_list_all2:
  "(\<And>x. x \<in> set xs \<Longrightarrow> \<exists>y. P x y) \<Longrightarrow> \<exists>ys. list_all2 P xs ys"
proof (induction xs)
  case Nil
  show ?case by simp
next
  case (Cons x xs)
  then obtain ys where "list_all2 P xs ys" by auto
  moreover obtain y where "P x y" using Cons.prems by auto
  ultimately have "list_all2 P (x # xs) (y # ys)" by simp
  then show ?case by blast
qed

lemma list_all2_map_back:
  "list_all2 (\<lambda>x y. Q x y \<and> f y = x) xs ys \<Longrightarrow> map f ys = xs"
  by (induction xs ys rule: list_all2_induct) simp_all

lemma fill_col_Bool:
  "data (fill_dt_col (fill_cat_col (fill_num_col c))) = BoolCol xs \<longleftrightarrow> data c = BoolCol xs"
  by simp

text \<open>
  Claim C3, as amended: a second normalisation returns the first one's output unchanged
  whenever that output has no two equal rows, no Categorical column, and every column of
  it whose name matches the date keywords is a datetime column without time zone.
\<close>

theorem normalization_idempotent_when:
  assumes "wf_df df" and "clean_data ps df = Inr out"
    and "distinct (rows_of out)" and "list_all (\<lambda>c. dtype c \<noteq> Category) out"
    and "list_all (\<lambda>c. is_date_name (name c) \<longrightarrow> dtype c = Datetime) out"
  shows "clean_data ps out = Inr out"
proof -
  let ?F = "\<lambda>c. fill_dt_col (fill_cat_col (fill_num_col c))"
  let ?d = "drop_duplicates df"
  obtain m where m: "before_fill ps df = Inr m"
    and nb: "\<not> list_ex (\<lambda>c. data c = BoolCol []) m" and out: "out = map ?F m"
    using assms(2) by (auto simp: clean_data_Inr)
  obtain df2 where df2: "infer_types ps ?d = Inr df2" and m2: "m = convert_dates ps df2"
    using m by (auto simp: before_fill_Inr)
  have out2: "out = map (\<lambda>c. ?F (date_col ps c)) df2"
    by (simp add: out m2 convert_dates_def)
  have wf: "wf_df out" by (rule clean_data_shape(3) [OF assms(2)])
  have n: "nrows out = nrows ?d" by (rule clean_data_shape(2) [OF assms(2)])
  have dd: "drop_duplicates out = out"
    by (rule drop_duplicates_distinct [OF wf assms(3)])
  have l2: "list_all2 (\<lambda>c c1. infer_col ps (nrows ?d) c = Inr c1) ?d df2"
    using df2 by (simp add: infer_types_def infer_loop_Inr)
  have col: "\<exists>o1. infer_col ps (nrows ?d) x = Inr o1 \<and> ?F (date_col ps o1) = x"
    if "x \<in> set out" for x
  proof -
    have "x \<in> (\<lambda>c. ?F (date_col ps c)) ` set df2"
      using that unfolding out2 by simp
    then obtain c1 where c1: "c1 \<in> set df2" "x = ?F (date_col ps c1)" by blast
    then obtain i where i: "i < length df2" "x = ?F (date_col ps (df2 ! i))"
      by (auto simp: in_set_conv_nth)
    have "i < length ?d" using i(1) l2 by (simp add: list_all2_lengthD)
    then have st: "infer_col ps (nrows ?d) (?d ! i) = Inr (df2 ! i)"
      by (rule list_all2_nthD [OF l2])
    have "dtype x \<noteq> Category" using assms(4) that by (simp add: list_all_iff)
    moreover have "is_date_name (name x) \<longrightarrow> dtype x = Datetime"
      using assms(5) that by (simp add: list_all_iff)
    moreover have "name x = name (df2 ! i)"
      by (simp add: i(2) fill_col_name date_col_name)
    ultimately show ?thesis
      unfolding i(2) by (intro column_second_pass [OF st]) simp_all
  qed
  obtain o1s where o1s:
    "list_all2 (\<lambda>x o1. infer_col ps (nrows ?d) x = Inr o1 \<and> ?F (date_col ps o1) = x) out o1s"
    using ex_list_all2 [of out "\<lambda>x o1. infer_col ps (nrows ?d) x = Inr o1 \<and> ?F (date_col ps o1) = x"] col
    by blast
  have "list_all2 (\<lambda>x o1. infer_col ps (nrows ?d) x = Inr o1) out o1s"
    by (rule list_all2_mono [OF o1s]) simp
  then have it: "infer_types ps out = Inr o1s"
    by (simp add: infer_types_def n infer_loop_Inr)
  have same_out: "map (\<lambda>o1. ?F (date_col ps o1)) o1s = out"
    by (rule list_all2_map_back [OF o1s])
  have bf: "before_fill ps out = Inr (convert_dates ps o1s)"
    by (simp add: before_fill_def dd it)
  have nb_out: "\<not> list_ex (\<lambda>c. data c = BoolCol []) out"
    using nb by (simp add: out list_ex_iff)
  have nb2: "\<not> list_ex (\<lambda>c. data c = BoolCol []) (convert_dates ps o1s)"
  proof
    assume "list_ex (\<lambda>c. data c = BoolCol []) (convert_dates ps o1s)"
    then obtain o1 where o1: "o1 \<in> set o1s" "data (date_col ps o1) = BoolCol []"
      by (auto simp: list_ex_iff convert_dates_def)
    then have "data (?F (date_col ps o1)) = BoolCol []" by simp
    moreover have "?F (date_col ps o1) \<in> set out"
      using o1(1) same_out by (metis (no_types, lifting) image_eqI set_map)
    ultimately show False using nb_out by (auto simp: list_ex_iff)
  qed
  have "clean_data ps out = Inr (map ?F (convert_dates ps o1s))"
    using bf nb2 by (simp add: clean_data_Inr)
  then show ?thesis using same_out by (simp add: convert_dates_def comp_def)
qed

theorem normalization_idempotent_when_witness:
  "clean_data toy_parsers
     [\<lparr>name = ''id'', data = Int64Col [1, 2, 2]\<rparr>,
      \<lparr>name = ''note'', data = ObjectCol [Some ''a'', Some ''b'', Some ''b'']\<rparr>,
      \<lparr>name = ''ok'', data = BoolCol [True, False, False]\<rparr>,
      \<lparr>name = ''order_date'', data = ObjectCol [Some ''2021-01-01'', Some ''n/a'', Some ''n/a'']\<rparr>]
   = Inr
     [\<lparr>name = ''id'', data = Int64Col [1, 2]\<rparr>,
      \<lparr>name = ''note'', data = ObjectCol [Some ''a'', Some ''b'']\<rparr>,
      \<lparr>name = ''ok'', data = BoolCol [True, False]\<rparr>,
      \<lparr>name = ''order_date'',
       data = DatetimeCol [Some 1609459200000000000, Some 1609459200000000000]\<rparr>]
   \<and> clean_data toy_parsers
     [\<lparr>name = ''id'', data = Int64Col [1, 2]\<rparr>,
      \<lparr>name = ''note'', data = ObjectCol [Some ''a'', Some ''b'']\<rparr>,
      \<lparr>name = ''ok'', data = BoolCol [True, False]\<rparr>,
      \<lparr>name = ''order_date'',
       data = DatetimeCol [Some 1609459200000000000, Some 1609459200000000000]\<rparr>]
   = Inr
     [\<lparr>name = ''id'', data = Int64Col [1, 2]\<rparr>,
      \<lparr>name = ''note'', data = ObjectCol [Some ''a'', Some ''b'']\<rparr>,
      \<lparr>name = ''ok'', data = BoolCol [True, False]\<rparr>,
      \<lparr>name = ''order_date'',
       data = DatetimeCol [Some 1609459200000000000, Some 1609459200000000000]\<rparr>]"
proof -
  let ?df = "[\<lparr>name = ''id'', data = Int64Col [1, 2, 2]\<rparr>,
      \<lparr>name = ''note'', data = ObjectCol [Some ''a'', Some ''b'', Some ''b'']\<rparr>,
      \<lparr>name = ''ok'', data = BoolCol [True, False, False]\<rparr>,
      \<lparr>name = ''order_date'', data = ObjectCol [Some ''2021-01-01'', Some ''n/a'', Some ''n/a'']\<rparr>]"
  let ?out = "[\<lparr>name = ''id'', data = Int64Col [1, 2]\<rparr>,
      \<lparr>name = ''note'', data = ObjectCol [Some ''a'', Some ''b'']\<rparr>,
      \<lparr>name = ''ok'', data = BoolCol [True, False]\<rparr>,
      \<lparr>name = ''order_date'',
       data = DatetimeCol [Some 1609459200000000000, Some 1609459200000000000]\<rparr>]"
  have h1: "wf_df ?df" by code_simp
  have h2: "clean_data toy_parsers ?df = Inr ?out" by code_simp
  have h3: "distinct (rows_of ?out)" by code_simp
  have h4: "list_all (\<lambda>c. dtype c \<noteq> Category) ?out" by code_simp
  have h5: "list_all (\<lambda>c. is_date_name (name c) \<longrightarrow> dtype c = Datetime) ?out" by code_simp
  show ?thesis
    using h2 normalization_idempotent_when [OF h1 h2 h3 h4 h5] by simp
qed

text \<open>
  The claim as stated fails in three ways. Filling \<open>[2, NaN]\<close> gives \<open>[2, 2]\<close>, and the
  second pass removes the duplicate row. A Categorical column is neither \<^verbatim>\<open>object\<close> nor
  \<^verbatim>\<open>bool\<close>, so the second pass sends it through numeric coercion, where its texts become
  NaN. A date column with a time zone is read as integers by the second pass and comes
  back without time zone, and only then is its NaT filled.
\<close>

theorem second_pass_changes_table:
  "clean_data toy_parsers [\<lparr>name = ''x'', data = Float64Col [Some (Fin 2), None]\<rparr>]
     = Inr [\<lparr>name = ''x'', data = Float64Col [Some (Fin 2), Some (Fin 2)]\<rparr>]
   \<and> clean_data toy_parsers [\<lparr>name = ''x'', data = Float64Col [Some (Fin 2), Some (Fin 2)]\<rparr>]
     = Inr [\<lparr>name = ''x'', data = Float64Col [Some (Fin 2)]\<rparr>]
   \<and> clean_data toy_parsers
       [\<lparr>name = ''id'', data = Int64Col [1, 2, 3, 4]\<rparr>,
        \<lparr>name = ''c'', data = ObjectCol [Some ''a'', Some ''a'', Some ''a'', Some ''a'']\<rparr>]
     = Inr [\<lparr>name = ''id'', data = Int64Col [1, 2, 3, 4]\<rparr>,
            \<lparr>name = ''c'', data = CategoryCol [Some ''a'', Some ''a'', Some ''a'', Some ''a'']\<rparr>]
   \<and> clean_data toy_parsers
       [\<lparr>name = ''id'', data = Int64Col [1, 2, 3, 4]\<rparr>,
        \<lparr>name = ''c'', data = CategoryCol [Some ''a'', Some ''a'', Some ''a'', Some ''a'']\<rparr>]
     = Inr [\<lparr>name = ''id'', data = Int64Col [1, 2, 3, 4]\<rparr>,
            \<lparr>name = ''c'', data = Float64Col [None, None, None, None]\<rparr>]
   \<and> clean_data toy_parsers
       [\<lparr>name = ''created_time'', data = ObjectCol [Some ''2021-01-01T00:00:00Z'', Some ''n/a'']\<rparr>]
     = Inr [\<lparr>name = ''created_time'',
             data = DatetimeTZCol ''UTC'' [Some 1609459200000000000, None]\<rparr>]
   \<and> clean_data toy_parsers
       [\<lparr>name = ''created_time'',
         data = DatetimeTZCol ''UTC'' [Some 1609459200000000000, None]\<rparr>]
     = Inr [\<lparr>name = ''created_time'',
             data = DatetimeCol [Some 1609459200000000000, Some 1609459200000000000]\<rparr>]"
  by code_simp

end
